theory Spec2Isabelle
  imports Complex_Main "HOL-Library.Word" "HOL-Library.Sublist"
begin

section \<open>Data model of \<open>models/command.py\<close>\<close>

text \<open>
  Python \<open>bytes\<close> are lists of 8-bit words, Python \<open>str\<close> values are
  \<open>string\<close>s. A \<open>datetime\<close> is its number of microseconds on the time line
  (the resolution of \<open>datetime\<close>), so that the difference of two of them is
  the \<open>timedelta\<close> in microseconds. Python floats are idealised as reals.
\<close>

type_synonym byte = "8 word"
type_synonym bytes = "byte list"
type_synonym timestamp = int

datatype py_error = TypeError | AttributeError | OSError

text \<open>The \<open>asyncio.subprocess.Process\<close> handle: \<open>returncode\<close> is \<open>None\<close>
  until the child has exited.\<close>

record Process =
  proc_pid :: int
  returncode :: "int option"

text \<open>The attributes of class \<open>Command\<close>, in the order \<open>__init__\<close> sets them.
  A stream target is an opaque handle.\<close>

record command =
  stdout_target :: "nat option"
  stderr_target :: "nat option"
  process :: "Process option"
  cmd :: string
  stdout :: "string option"
  stderr :: "string option"
  start_time :: "timestamp option"
  end_time :: "timestamp option"

definition Command :: "string \<Rightarrow> nat option \<Rightarrow> nat option \<Rightarrow> command" where
  "Command c stderr_tgt stdout_tgt =
     \<lparr>stdout_target = stdout_tgt, stderr_target = stderr_tgt, process = None,
      cmd = c, stdout = None, stderr = None, start_time = None, end_time = None\<rparr>"

definition return_code :: "command \<Rightarrow> int option" where
  "return_code self = (case process self of Some p \<Rightarrow> returncode p | None \<Rightarrow> None)"

definition pid :: "command \<Rightarrow> int option" where
  "pid self = (case process self of Some p \<Rightarrow> Some (proc_pid p) | None \<Rightarrow> None)"

text \<open>\<open>timedelta.total_seconds()\<close> and the float \<open>divmod\<close> (floor division).\<close>

definition total_seconds :: "int \<Rightarrow> real" where
  "total_seconds d = real_of_int d / 1000000"

definition divmod :: "real \<Rightarrow> real \<Rightarrow> real \<times> real" where
  "divmod x y = (of_int \<lfloor>x / y\<rfloor>, x - of_int \<lfloor>x / y\<rfloor> * y)"

text \<open>Subtracting with \<open>None\<close> on either side raises \<open>TypeError\<close>.\<close>

definition time_delta :: "command \<Rightarrow> py_error + real \<times> real" where
  "time_delta self =
     (case end_time self of
        None \<Rightarrow> Inl TypeError
      | Some e \<Rightarrow>
          (case start_time self of
             None \<Rightarrow> Inl TypeError
           | Some s \<Rightarrow>
               (let seconds = total_seconds (e - s);
                    minutes = fst (divmod seconds 60)
                in Inr (minutes, seconds))))"

section \<open>Display formatting\<close>

text \<open>Format specifications of f-strings: a width pads a \<open>str\<close> on the right and
  a number on the left.\<close>

definition ljust :: "nat \<Rightarrow> string \<Rightarrow> string" where
  "ljust w s = s @ replicate (w - length s) CHR '' ''"

definition rjust :: "nat \<Rightarrow> string \<Rightarrow> string" where
  "rjust w s = replicate (w - length s) CHR '' '' @ s"

function digits10 :: "nat \<Rightarrow> string" where
  "digits10 n =
     (if n < 10 then [char_of (48 + n)]
      else digits10 (n div 10) @ [char_of (48 + n mod 10)])"
  by pat_completeness auto
termination
  by (relation "measure id") auto

definition str_int :: "int \<Rightarrow> string" where
  "str_int i = (if i < 0 then CHR ''-'' # digits10 (nat (- i)) else digits10 (nat i))"

definition format_int :: "nat \<Rightarrow> int \<Rightarrow> string" where
  "format_int w i = rjust w (str_int i)"

text \<open>How a \<open>datetime\<close> prints and how a float prints in a field of a given
  width is the business of the Python runtime: both are parameters.\<close>

record render =
  str_datetime :: "timestamp \<Rightarrow> string"
  format_float :: "nat \<Rightarrow> real \<Rightarrow> string"

definition str_opt_time :: "render \<Rightarrow> timestamp option \<Rightarrow> string" where
  "str_opt_time R t = (case t of None \<Rightarrow> ''None'' | Some x \<Rightarrow> str_datetime R x)"

definition str_opt :: "string option \<Rightarrow> string" where
  "str_opt s = (case s of None \<Rightarrow> ''None'' | Some x \<Rightarrow> x)"

text \<open>\<open>Command.__str__\<close>. Formatting \<open>None\<close> with the format specification
  \<open>3\<close> raises \<open>TypeError\<close>, and so does \<open>time_delta\<close> without both time stamps.\<close>

definition str_command :: "render \<Rightarrow> command \<Rightarrow> py_error + string" where
  "str_command R self =
     (case pid self of
        None \<Rightarrow> Inr (ljust 60 (cmd self) @ '' [None] [None]'')
      | Some p \<Rightarrow>
          (case return_code self of
             None \<Rightarrow> Inl TypeError
           | Some rc \<Rightarrow>
               (case time_delta self of
                  Inl e \<Rightarrow> Inl e
                | Inr (minutes, seconds) \<Rightarrow>
                    Inr (ljust 60 (cmd self) @ '' ['' @ format_int 6 p @ ''] [''
                         @ format_int 3 rc @ ''] ''
                         @ ''Start:'' @ str_opt_time R (start_time self) @ '' ''
                         @ ''End:'' @ str_opt_time R (end_time self) @ '' ''
                         @ ''Elapsed:'' @ format_float R 6 minutes @ ''m ''
                         @ format_float R 8 seconds @ ''s''))))"

section \<open>The text decoder\<close>

text \<open>\<open>bytes.replace\<close> and \<open>str.replace\<close>: occurrences are replaced from left
  to right without overlap; an empty pattern matches before every element and at
  the end.\<close>

function replace :: "'a list \<Rightarrow> 'a list \<Rightarrow> 'a list \<Rightarrow> 'a list" where
  "replace old new [] = (if old = [] then new else [])"
| "replace old new (c # cs) =
     (if old = [] then new @ c # replace old new cs
      else if prefix old (c # cs) then new @ replace old new (drop (length old) (c # cs))
      else c # replace old new cs)"
  by pat_completeness auto
termination
  by (relation "measure (\<lambda>(old, new, s). length s)") (auto simp: neq_Nil_conv)

text \<open>\<open>str\<close> of a \<open>bytes\<close> object is its \<open>repr\<close>: \<open>b\<close>, a quote, the escaped
  bytes, the quote. The quote is the double quote when the bytes hold a single
  quote and no double quote, the single quote otherwise.\<close>

definition hexdigits :: string where
  "hexdigits = ''0123456789abcdef''"

definition bytes_repr_quote :: "bytes \<Rightarrow> char" where
  "bytes_repr_quote bs =
     (if 0x27 \<in> set bs \<and> 0x22 \<notin> set bs then CHR 0x22 else CHR 0x27)"

definition bytes_repr_escape :: "char \<Rightarrow> byte \<Rightarrow> string" where
  "bytes_repr_escape quote c =
     (if char_of (unat c) = quote \<or> c = 0x5C then [CHR 0x5C, char_of (unat c)]
      else if c = 0x09 then [CHR 0x5C, CHR ''t'']
      else if c = 0x0A then [CHR 0x5C, CHR ''n'']
      else if c = 0x0D then [CHR 0x5C, CHR ''r'']
      else if c < 0x20 \<or> 0x7F \<le> c then
        [CHR 0x5C, CHR ''x'', hexdigits ! (unat c div 16), hexdigits ! (unat c mod 16)]
      else [char_of (unat c)])"

definition bytes_repr_body :: "char \<Rightarrow> bytes \<Rightarrow> string" where
  "bytes_repr_body quote bs = concat (map (bytes_repr_escape quote) bs)"

definition str_bytes :: "bytes \<Rightarrow> string" where
  "str_bytes bs =
     (let quote = bytes_repr_quote bs
      in CHR ''b'' # quote # bytes_repr_body quote bs @ [quote])"

text \<open>The slice \<open>[2:-1]\<close>.\<close>

definition slice_2_m1 :: "'a list \<Rightarrow> 'a list" where
  "slice_2_m1 s = take (length s - 1 - 2) (drop 2 s)"

text \<open>\<open>bytes_to_string\<close>. The argument is what \<open>communicate()\<close> hands over:
  \<open>None\<close> for a stream that was not piped, on which \<open>.replace\<close> raises
  \<open>AttributeError\<close>.\<close>

definition bytes_to_string :: "bytes option \<Rightarrow> py_error + string" where
  "bytes_to_string b =
     (case b of
        None \<Rightarrow> Inl AttributeError
      | Some bs \<Rightarrow>
          (let v = replace [CHR 0x0D] [] (slice_2_m1 (str_bytes (replace [0x00] [] bs)));
               v = replace [CHR 0x5C, CHR ''n''] '' '' (replace [CHR 0x5C, CHR ''r''] [] v)
           in Inr v))"

text \<open>The characters of printable ASCII, and the decoder with the quote of the
  \<open>repr\<close> as a parameter.\<close>

definition printable_ascii :: "char \<Rightarrow> bool" where
  "printable_ascii c \<longleftrightarrow> 0x20 \<le> (of_char c :: nat) \<and> (of_char c :: nat) \<le> 0x7E"

definition decode_quoted :: "char \<Rightarrow> bytes \<Rightarrow> string" where
  "decode_quoted quote bs =
     replace [CHR 0x5C, CHR ''n''] '' ''
       (replace [CHR 0x5C, CHR ''r''] []
          (replace [CHR 0x0D] [] (bytes_repr_body quote (replace [0x00] [] bs))))"

text \<open>The decoder up to the removal of the carriage returns, before the line
  feeds are replaced.\<close>

definition decode_cr_removed :: "char \<Rightarrow> bytes \<Rightarrow> string" where
  "decode_cr_removed quote bs =
     replace [CHR 0x5C, CHR ''r''] []
       (replace [CHR 0x0D] [] (bytes_repr_body quote (replace [0x00] [] bs)))"

section \<open>The outcome reporter\<close>

text \<open>The logger is the list of the records it was handed, oldest first. The level
  of the logger is \<open>INFO\<close>, so both channels are emitted.\<close>

datatype level = INFO | ERROR

type_synonym log_records = "(level \<times> string) list"

definition write_log :: "render \<Rightarrow> command \<Rightarrow> log_records \<Rightarrow> py_error + log_records" where
  "write_log R command lg =
     (if return_code command = Some 0 then
        (case str_command R command of
           Inl e \<Rightarrow> Inl e
         | Inr line \<Rightarrow> Inr (lg @ [(INFO, line)]))
      else
        (case str_command R command of
           Inl e \<Rightarrow> Inl e
         | Inr line \<Rightarrow>
             Inr (lg @ [(ERROR, line @ str_opt (stderr command) @ str_opt (stdout command))])))"

section \<open>The coroutine of \<open>Command.__call__\<close>\<close>

text \<open>\<open>func\<close> suspends at two places: while the shell is being spawned and while
  the child runs. It is modelled by its three segments between these places. What
  the operating system and the clock deliver is an argument of each segment.\<close>

definition func_begin :: "timestamp \<Rightarrow> command \<Rightarrow> command" where
  "func_begin now self = self\<lparr>start_time := Some now\<rparr>"

definition func_spawned :: "Process \<Rightarrow> command \<Rightarrow> command" where
  "func_spawned p self = self\<lparr>process := Some p\<rparr>"

text \<open>\<open>Process.communicate()\<close> yields the bytes of a piped stream and \<open>None\<close>
  for a stream that was redirected to a target.\<close>

definition communicate :: "command \<Rightarrow> bytes \<Rightarrow> bytes \<Rightarrow> bytes option \<times> bytes option" where
  "communicate self out err =
     (if stdout_target self = None then Some out else None,
      if stderr_target self = None then Some err else None)"

definition parse_streams_on_complete ::
    "bytes option \<times> bytes option \<Rightarrow> py_error + string \<times> string" where
  "parse_streams_on_complete streams =
     (case bytes_to_string (fst streams) of
        Inl e \<Rightarrow> Inl e
      | Inr so \<Rightarrow>
          (case bytes_to_string (snd streams) of
             Inl e \<Rightarrow> Inl e
           | Inr se \<Rightarrow> Inr (so, se)))"

text \<open>The \<open>Process\<close> handle is shared with the event loop, which gives it its
  return code when the child exits, while \<open>func\<close> is still suspended in
  \<open>communicate()\<close>.\<close>

definition process_exited :: "int \<Rightarrow> command \<Rightarrow> command" where
  "process_exited rc self =
     self\<lparr>process := map_option (\<lambda>p. p\<lparr>returncode := Some rc\<rparr>) (process self)\<rparr>"

text \<open>The last segment runs when \<open>communicate()\<close> returns, the child having
  written \<open>out\<close> and \<open>err\<close>: the streams are decoded, the end time is taken
  and the outcome is logged. The result is the exception raised, if any, with the
  unit and the log as they are then.\<close>

definition func_communicated ::
    "render \<Rightarrow> bytes \<Rightarrow> bytes \<Rightarrow> timestamp \<Rightarrow> command \<Rightarrow> log_records
     \<Rightarrow> py_error option \<times> command \<times> log_records" where
  "func_communicated R out err now self lg =
     (case parse_streams_on_complete (communicate self out err) of
        Inl e \<Rightarrow> (Some e, self, lg)
      | Inr (so, se) \<Rightarrow>
          (let c2 = self\<lparr>stdout := Some so, stderr := Some se\<rparr>;
               c3 = c2\<lparr>end_time := Some now\<rparr>
           in case write_log R c3 lg of
                Inl e \<Rightarrow> (Some e, c3, lg)
              | Inr lg' \<Rightarrow> (None, c3, lg')))"

section \<open>The batch: \<open>asyncio.gather\<close> over the units\<close>

text \<open>A task is a unit with the place its coroutine has reached. \<open>gather\<close> with
  the default \<open>return_exceptions=False\<close> is done with the exception of the first
  task that raises, and with a result once every task has returned; after that it
  ignores the tasks, which it does not cancel.\<close>

datatype pc = Pending | AwaitSpawn | AwaitExit | Returned | Raised py_error

record task =
  self :: command
  pc :: pc

datatype outcome = Waiting | Done | Failed py_error

record loop_state =
  tasks :: "task list"
  records :: log_records
  gather :: outcome

text \<open>What the event loop can deliver to task \<open>i\<close>: its first run with the clock
  reading, the spawned process with its identifier, the failure to spawn, the exit
  of the child with its status, and the return of \<open>communicate()\<close> with the
  output of the child and the clock reading. The child exits once, and
  \<open>communicate()\<close> returns only when it has.\<close>

datatype event =
    Begin nat timestamp
  | Spawn nat int
  | SpawnFail nat
  | ChildExit nat int
  | Communicated nat bytes bytes timestamp

definition set_task :: "nat \<Rightarrow> task \<Rightarrow> loop_state \<Rightarrow> loop_state" where
  "set_task i t st = st\<lparr>tasks := (tasks st)[i := t]\<rparr>"

definition gather_done_callback :: "task \<Rightarrow> loop_state \<Rightarrow> loop_state" where
  "gather_done_callback t st =
     (if gather st \<noteq> Waiting then st
      else case pc t of
             Raised e \<Rightarrow> st\<lparr>gather := Failed e\<rparr>
           | _ \<Rightarrow> if list_all (\<lambda>t. pc t = Returned) (tasks st)
                  then st\<lparr>gather := Done\<rparr> else st)"

fun step :: "render \<Rightarrow> event \<Rightarrow> loop_state \<Rightarrow> loop_state" where
  "step R (Begin i now) st =
     (if i < length (tasks st) \<and> pc (tasks st ! i) = Pending
      then set_task i \<lparr>self = func_begin now (self (tasks st ! i)), pc = AwaitSpawn\<rparr> st
      else st)"
| "step R (Spawn i p) st =
     (if i < length (tasks st) \<and> pc (tasks st ! i) = AwaitSpawn
      then set_task i \<lparr>self = func_spawned \<lparr>proc_pid = p, returncode = None\<rparr>
                                   (self (tasks st ! i)),
                       pc = AwaitExit\<rparr> st
      else st)"
| "step R (SpawnFail i) st =
     (if i < length (tasks st) \<and> pc (tasks st ! i) = AwaitSpawn
      then (let t = \<lparr>self = self (tasks st ! i), pc = Raised OSError\<rparr>
            in gather_done_callback t (set_task i t st))
      else st)"
| "step R (ChildExit i rc) st =
     (if i < length (tasks st) \<and> pc (tasks st ! i) = AwaitExit
         \<and> return_code (self (tasks st ! i)) = None
      then set_task i \<lparr>self = process_exited rc (self (tasks st ! i)), pc = AwaitExit\<rparr> st
      else st)"
| "step R (Communicated i out err now) st =
     (if i < length (tasks st) \<and> pc (tasks st ! i) = AwaitExit
         \<and> return_code (self (tasks st ! i)) \<noteq> None
      then (case func_communicated R out err now (self (tasks st ! i)) (records st) of
              (res, c, lg) \<Rightarrow>
                (let t = \<lparr>self = c, pc = (case res of None \<Rightarrow> Returned | Some e \<Rightarrow> Raised e)\<rparr>
                 in gather_done_callback t (set_task i t (st\<lparr>records := lg\<rparr>))))
      else st)"

fun exec :: "render \<Rightarrow> event list \<Rightarrow> loop_state \<Rightarrow> loop_state" where
  "exec R [] st = st"
| "exec R (ev # evs) st = exec R evs (step R ev st)"

text \<open>\<open>run\<close> of \<open>main.py\<close>: the units of the batch, and the state in which
  \<open>gather\<close> starts to wait for their coroutines. \<open>gather\<close> of no coroutine at
  all is done at once.\<close>

definition run_tasks :: "command list" where
  "run_tasks =
     [Command ''cleanmgr.exe /sagerun:1'' None None,
      Command ''wuauclt /detectnow /updatenow'' None None,
      Command ''cipher.exe /w:E'' None None,
      Command ''cipher.exe /w:C'' None None,
      Command ''sfc /scannow'' None None]"

definition gather_start :: "command list \<Rightarrow> loop_state" where
  "gather_start cs =
     \<lparr>tasks = map (\<lambda>c. \<lparr>self = c, pc = Pending\<rparr>) cs, records = [],
      gather = (if cs = [] then Done else Waiting)\<rparr>"

definition run :: "render \<Rightarrow> event list \<Rightarrow> loop_state" where
  "run R evs = exec R evs (gather_start run_tasks)"

text \<open>The lifecycle state \<open>Completed\<close>: exit status assigned, both time stamps set,
  decoded output populated.\<close>

definition Completed :: "command \<Rightarrow> bool" where
  "Completed c \<longleftrightarrow>
     return_code c \<noteq> None \<and> start_time c \<noteq> None \<and> end_time c \<noteq> None
     \<and> stdout c \<noteq> None \<and> stderr c \<noteq> None"

text \<open>The lifecycle state \<open>Created\<close>: the command text is set and nothing else.\<close>

definition Created :: "command \<Rightarrow> bool" where
  "Created c \<longleftrightarrow>
     process c = None \<and> stdout c = None \<and> stderr c = None
     \<and> start_time c = None \<and> end_time c = None"


section \<open>Sample units\<close>

definition unit_done :: command where
  "unit_done =
     \<lparr>stdout_target = None, stderr_target = None,
      process = Some \<lparr>proc_pid = 4242, returncode = Some 0\<rparr>,
      cmd = ''sfc /scannow'', stdout = Some ''ok'', stderr = Some [],
      start_time = Some 1000000, end_time = Some 151500000\<rparr>"

definition unit_failed :: command where
  "unit_failed =
     \<lparr>stdout_target = None, stderr_target = None,
      process = Some \<lparr>proc_pid = 4243, returncode = Some 1\<rparr>,
      cmd = ''cipher.exe /w:E'', stdout = Some ''out'', stderr = Some ''boom'',
      start_time = Some 1000000, end_time = Some 3000000\<rparr>"

definition unit_running :: command where
  "unit_running =
     \<lparr>stdout_target = None, stderr_target = None,
      process = Some \<lparr>proc_pid = 4242, returncode = None\<rparr>,
      cmd = ''sfc /scannow'', stdout = None, stderr = None,
      start_time = Some 1000000, end_time = None\<rparr>"

text \<open>Sample events: for the batch of \<open>run\<close>, a moment at which its units are
  at five different stages, and a failed spawn; for a pair of units, their
  completion in both orders, and a failed spawn.\<close>

definition sample_progress :: "event list" where
  "sample_progress =
     [Begin 0 1000000, Begin 1 1000001, Begin 2 1000002, Begin 3 1000003,
      Spawn 0 4242, Spawn 1 4243, Spawn 2 4244, ChildExit 0 0, ChildExit 2 1,
      Communicated 0 [0x6F, 0x6B] [] 3000000]"

definition sample_run_failure :: "event list" where
  "sample_run_failure = [Begin 0 1000000, Begin 1 1000001, Spawn 1 4243, SpawnFail 0]"

definition sample_pair :: "command list" where
  "sample_pair = [Command ''cipher.exe /w:E'' None None, Command ''sfc /scannow'' None None]"

definition sample_first_then_second :: "event list" where
  "sample_first_then_second =
     [Begin 0 1000000, Begin 1 1000001, Spawn 0 4242, Spawn 1 4243,
      ChildExit 0 0, ChildExit 1 1,
      Communicated 0 [0x6F, 0x6B] [] 3000000, Communicated 1 [] [0x6F, 0x6B] 4000000]"

definition sample_second_then_first :: "event list" where
  "sample_second_then_first =
     [Begin 0 1000000, Begin 1 1000001, Spawn 0 4242, Spawn 1 4243,
      ChildExit 0 0, ChildExit 1 1,
      Communicated 1 [] [0x6F, 0x6B] 3000000, Communicated 0 [0x6F, 0x6B] [] 4000000]"

definition sample_spawn_failure :: "event list" where
  "sample_spawn_failure = [Begin 0 1000000, Begin 1 1000001, SpawnFail 0]"

text \<open>A renderer to evaluate with: a time stamp prints as its number of
  microseconds, a float as its integral part.\<close>

definition plain_render :: render where
  "plain_render =
     \<lparr>str_datetime = str_int, format_float = (\<lambda>w x. rjust w (str_int \<lfloor>x\<rfloor>))\<rparr>"

section \<open>Invariants of the event loop\<close>

text \<open>What the place of a coroutine says about the attributes of its unit, and what
  the state of \<open>gather\<close> says about the tasks.\<close>

definition task_inv :: "task \<Rightarrow> bool" where
  "task_inv t =
     (case pc t of
        Pending \<Rightarrow> process (self t) = None \<and> start_time (self t) = None \<and> end_time (self t) = None
                     \<and> stdout (self t) = None \<and> stderr (self t) = None
      | AwaitSpawn \<Rightarrow> process (self t) = None \<and> start_time (self t) \<noteq> None \<and> end_time (self t) = None
                     \<and> stdout (self t) = None \<and> stderr (self t) = None
      | AwaitExit \<Rightarrow> pid (self t) \<noteq> None \<and> start_time (self t) \<noteq> None
                     \<and> end_time (self t) = None \<and> stdout (self t) = None \<and> stderr (self t) = None
      | Returned \<Rightarrow> pid (self t) \<noteq> None \<and> Completed (self t)
      | Raised e \<Rightarrow> start_time (self t) \<noteq> None \<and> end_time (self t) = None
                     \<and> stdout (self t) = None \<and> stderr (self t) = None
                     \<and> (if e = OSError then process (self t) = None
                         else e = AttributeError \<and> return_code (self t) \<noteq> None))"

definition gather_inv :: "loop_state \<Rightarrow> bool" where
  "gather_inv st =
     (case gather st of
        Done \<Rightarrow> list_all (\<lambda>t. pc t = Returned) (tasks st)
      | Waiting \<Rightarrow> list_all (\<lambda>t. case pc t of Raised e \<Rightarrow> False | _ \<Rightarrow> True) (tasks st)
      | Failed e \<Rightarrow> list_ex (\<lambda>t. pc t = Raised e) (tasks st))"

definition loop_inv :: "loop_state \<Rightarrow> bool" where
  "loop_inv st \<longleftrightarrow> list_all task_inv (tasks st) \<and> gather_inv st"


section \<open>Properties of a single unit\<close>

lemma str_command_completed:
  assumes "Completed c"
  shows "\<exists>line. str_command R c = Inr line"
proof -
  from assms obtain p rc s e where
    "process c = Some p" "returncode p = Some rc" "start_time c = Some s" "end_time c = Some e"
    by (auto simp: Completed_def return_code_def split: option.splits)
  then show ?thesis
    by (simp add: str_command_def pid_def return_code_def time_delta_def Let_def)
qed

lemma Completed_unit_done: "Completed unit_done"
  by (simp add: Completed_def unit_done_def return_code_def)

lemma Completed_unit_failed: "Completed unit_failed"
  by (simp add: Completed_def unit_failed_def return_code_def)

text \<open>
  Claim C5. The text decoder is total on bytes: whatever the byte sequence, with
  malformed sequences, null bytes, carriage returns and line feeds, it returns a
  string and raises nothing.
\<close>

theorem bytes_to_string_total: "\<exists>s. bytes_to_string (Some bs) = Inr s"
  by (simp add: bytes_to_string_def Let_def)

text \<open>
  Claim C6. For a Completed unit, \<open>time_delta\<close> returns a pair derived from
  end - start, the duration in microseconds: the whole minutes of the duration,
  and the seconds of the duration (all of them: 150.5 for a duration of 150.5
  seconds, not the 30.5 that are left after the two minutes).
\<close>

theorem time_delta_completed:
  assumes "Completed c"
  shows "\<exists>s e. start_time c = Some s \<and> end_time c = Some e
           \<and> time_delta c =
               Inr (of_int \<lfloor>real_of_int (e - s) / 1000000 / 60\<rfloor>, real_of_int (e - s) / 1000000)"
proof -
  from assms obtain s e where "start_time c = Some s" "end_time c = Some e"
    by (auto simp: Completed_def)
  then show ?thesis
    by (simp add: time_delta_def divmod_def total_seconds_def Let_def)
qed

theorem time_delta_completed_witness:
  "Completed unit_done \<and> start_time unit_done = Some 1000000
   \<and> end_time unit_done = Some 151500000 \<and> time_delta unit_done = Inr (2, 301 / 2)"
proof -
  have h: "Completed unit_done"
    by (simp add: Completed_def unit_done_def return_code_def)
  have t: "start_time unit_done = Some 1000000" "end_time unit_done = Some 151500000"
    by (simp_all add: unit_done_def)
  from time_delta_completed [OF h] t have "time_delta unit_done = Inr (2, 301 / 2)"
    by simp
  with h t show ?thesis by simp
qed

text \<open>
  Claim C3. For a Completed unit the reporter does not raise and appends one
  record: at level INFO the display line when the exit status is 0, and otherwise
  at level ERROR the display line followed by the stderr text and then the
  stdout text.
\<close>

theorem write_log_completed:
  assumes "Completed c"
  shows "\<exists>line se so. str_command R c = Inr line \<and> stderr c = Some se \<and> stdout c = Some so
           \<and> write_log R c lg =
               Inr (lg @ [if return_code c = Some 0 then (INFO, line)
                          else (ERROR, line @ se @ so)])"
proof -
  from str_command_completed [OF assms] obtain line where l: "str_command R c = Inr line"
    by blast
  from assms obtain se so where "stderr c = Some se" "stdout c = Some so"
    by (auto simp: Completed_def)
  with l show ?thesis
    by (simp add: write_log_def str_opt_def)
qed

theorem write_log_completed_witness:
  "Completed unit_failed \<and> Completed unit_done
   \<and> (\<exists>line. str_command plain_render unit_failed = Inr line
        \<and> write_log plain_render unit_failed [] = Inr [(ERROR, line @ ''boom'' @ ''out'')])
   \<and> (\<exists>line. str_command plain_render unit_done = Inr line
        \<and> write_log plain_render unit_done [] = Inr [(INFO, line)])"
proof -
  have f: "Completed unit_failed" and d: "Completed unit_done"
    by (simp_all add: Completed_def unit_failed_def unit_done_def return_code_def)
  have rf: "return_code unit_failed = Some 1" "stderr unit_failed = Some ''boom''"
    "stdout unit_failed = Some ''out''"
    by (simp_all add: unit_failed_def return_code_def)
  have rd: "return_code unit_done = Some 0"
    by (simp add: unit_done_def return_code_def)
  from write_log_completed [OF f, of plain_render "[]"] rf
  have 1: "\<exists>line. str_command plain_render unit_failed = Inr line
        \<and> write_log plain_render unit_failed [] = Inr [(ERROR, line @ ''boom'' @ ''out'')]"
    by auto
  from write_log_completed [OF d, of plain_render "[]"] rd
  have 2: "\<exists>line. str_command plain_render unit_done = Inr line
        \<and> write_log plain_render unit_done [] = Inr [(INFO, line)]"
    by auto
  from f d 1 2 show ?thesis by blast
qed

text \<open>
  Claim C10, as stated, fails: once \<open>func\<close> has set the start time stamp, and
  as long as the spawn is awaited or after it has failed, the unit is neither
  Created nor Completed, and it has a display line, the one with placeholders.
\<close>

theorem display_line_while_spawning:
  "\<not> Created (func_begin 1000000 (Command ''sfc /scannow'' None None))
   \<and> \<not> Completed (func_begin 1000000 (Command ''sfc /scannow'' None None))
   \<and> str_command plain_render (func_begin 1000000 (Command ''sfc /scannow'' None None))
       = Inr (ljust 60 ''sfc /scannow'' @ '' [None] [None]'')"
  by (simp add: Created_def Completed_def func_begin_def Command_def str_command_def pid_def
      return_code_def)

text \<open>
  Claim C10, amended. With the identifier present and the exit status or the end
  time stamp absent, producing the display line raises. There is a display line
  exactly when the identifier is absent (the line with placeholders: in the
  Created state, and also while the spawn is awaited or after it has failed) or
  the exit status and both time stamps are present (as in the Completed state).
\<close>

theorem str_command_raises_iff:
  "(pid c \<noteq> None \<and> (return_code c = None \<or> end_time c = None)
      \<longrightarrow> str_command R c = Inl TypeError)
   \<and> (pid c = None \<longrightarrow> str_command R c = Inr (ljust 60 (cmd c) @ '' [None] [None]''))
   \<and> (Completed c \<longrightarrow> (\<exists>line. str_command R c = Inr line))
   \<and> ((\<exists>line. str_command R c = Inr line)
        \<longleftrightarrow> pid c = None
            \<or> (return_code c \<noteq> None \<and> start_time c \<noteq> None \<and> end_time c \<noteq> None))"
  using str_command_completed [of c R]
  by (auto simp: str_command_def time_delta_def Let_def split: option.splits)

theorem str_command_raises_iff_witness:
  "pid unit_running \<noteq> None \<and> return_code unit_running = None
   \<and> str_command plain_render unit_running = Inl TypeError
   \<and> pid (Command ''sfc /scannow'' None None) = None
   \<and> str_command plain_render (Command ''sfc /scannow'' None None) =
       Inr (ljust 60 ''sfc /scannow'' @ '' [None] [None]'')
   \<and> Completed unit_done
   \<and> (\<exists>line. str_command plain_render unit_done = Inr line)
   \<and> return_code unit_done \<noteq> None"
proof -
  have r: "pid unit_running \<noteq> None" "return_code unit_running = None"
    by (simp_all add: unit_running_def pid_def return_code_def)
  have n: "pid (Command ''sfc /scannow'' None None) = None"
    "cmd (Command ''sfc /scannow'' None None) = ''sfc /scannow''"
    by (simp_all add: Command_def pid_def)
  have d: "Completed unit_done" "pid unit_done \<noteq> None"
    by (simp_all add: Completed_def unit_done_def return_code_def pid_def)
  from str_command_raises_iff [where c = unit_running and R = plain_render] r
  have 1: "str_command plain_render unit_running = Inl TypeError" by blast
  from str_command_raises_iff [where c = "Command ''sfc /scannow'' None None"
      and R = plain_render] n
  have 2: "str_command plain_render (Command ''sfc /scannow'' None None) =
       Inr (ljust 60 ''sfc /scannow'' @ '' [None] [None]'')"
    by simp
  from str_command_raises_iff [where c = unit_done and R = plain_render] d
  have 3: "\<exists>line. str_command plain_render unit_done = Inr line"
    and 4: "return_code unit_done \<noteq> None"
    by blast+
  from r n d 1 2 3 4 show ?thesis by blast
qed

section \<open>Preservation of the invariants\<close>

lemma list_all_update:
  "list_all P xs \<Longrightarrow> P x \<Longrightarrow> list_all P (xs[i := x])"
  by (induction xs arbitrary: i) (auto split: nat.splits)

lemma tasks_gather_done_callback [simp]:
  "tasks (gather_done_callback t st) = tasks st"
  by (simp add: gather_done_callback_def split: pc.splits)

lemma tasks_set_task [simp]: "tasks (set_task i t st) = (tasks st)[i := t]"
  by (simp add: set_task_def)

lemma gather_set_task [simp]: "gather (set_task i t st) = gather st"
  by (simp add: set_task_def)

lemma func_communicated_cases:
  assumes "pid c \<noteq> None" "return_code c \<noteq> None" "start_time c \<noteq> None"
    "end_time c = None" "stdout c = None" "stderr c = None"
  shows "func_communicated R out err now c lg = (Some AttributeError, c, lg)
       \<or> (\<exists>c' lg'. func_communicated R out err now c lg = (None, c', lg')
            \<and> pid c' \<noteq> None \<and> Completed c')"
proof (cases "parse_streams_on_complete (communicate c out err)")
  case (Inl e)
  then have "e = AttributeError"
    by (auto simp: parse_streams_on_complete_def bytes_to_string_def Let_def
        split: option.splits sum.splits)
  with Inl show ?thesis
    by (simp add: func_communicated_def)
next
  case (Inr r)
  obtain so se where r: "r = (so, se)" by (cases r)
  from assms obtain p rc s where p: "process c = Some p" "returncode p = Some rc"
    "start_time c = Some s"
    by (auto simp: pid_def return_code_def split: option.splits)
  let ?c3 = "c\<lparr>stdout := Some so, stderr := Some se, end_time := Some now\<rparr>"
  have comp: "Completed ?c3"
    using p by (simp add: Completed_def return_code_def)
  have "\<exists>line. str_command R ?c3 = Inr line"
    using p by (simp add: str_command_def pid_def return_code_def time_delta_def Let_def)
  then have "\<exists>lg'. write_log R ?c3 lg = Inr lg'"
    by (auto simp: write_log_def)
  then obtain lg' where "write_log R ?c3 lg = Inr lg'" ..
  with Inr r p comp show ?thesis
    by (simp add: func_communicated_def pid_def)
qed

lemma step_task_inv:
  assumes "list_all task_inv (tasks st)"
  shows "list_all task_inv (tasks (step R ev st))"
proof (cases ev)
  case (Begin i now)
  show ?thesis
  proof (cases "i < length (tasks st) \<and> pc (tasks st ! i) = Pending")
    case True
    with assms have "task_inv (tasks st ! i)" by (simp add: list_all_length)
    with True have "task_inv \<lparr>self = func_begin now (self (tasks st ! i)), pc = AwaitSpawn\<rparr>"
      by (simp add: task_inv_def func_begin_def)
    with assms True Begin show ?thesis by (simp add: list_all_update)
  next
    case False
    with assms Begin show ?thesis by auto
  qed
next
  case (Spawn i p)
  show ?thesis
  proof (cases "i < length (tasks st) \<and> pc (tasks st ! i) = AwaitSpawn")
    case True
    with assms have "task_inv (tasks st ! i)" by (simp add: list_all_length)
    with True have "task_inv \<lparr>self = func_spawned \<lparr>proc_pid = p, returncode = None\<rparr>
        (self (tasks st ! i)), pc = AwaitExit\<rparr>"
      by (simp add: task_inv_def func_spawned_def pid_def)
    with assms True Spawn show ?thesis by (simp add: list_all_update)
  next
    case False
    with assms Spawn show ?thesis by auto
  qed
next
  case (SpawnFail i)
  show ?thesis
  proof (cases "i < length (tasks st) \<and> pc (tasks st ! i) = AwaitSpawn")
    case True
    with assms have "task_inv (tasks st ! i)" by (simp add: list_all_length)
    with True have "task_inv \<lparr>self = self (tasks st ! i), pc = Raised OSError\<rparr>"
      by (simp add: task_inv_def)
    with assms True SpawnFail show ?thesis by (simp add: list_all_update Let_def)
  next
    case False
    with assms SpawnFail show ?thesis by auto
  qed
next
  case (ChildExit i rc)
  show ?thesis
  proof (cases "i < length (tasks st) \<and> pc (tasks st ! i) = AwaitExit
      \<and> return_code (self (tasks st ! i)) = None")
    case True
    with assms have "task_inv (tasks st ! i)" by (simp add: list_all_length)
    with True have "task_inv \<lparr>self = process_exited rc (self (tasks st ! i)), pc = AwaitExit\<rparr>"
      by (auto simp: task_inv_def process_exited_def pid_def split: option.splits)
    with assms True ChildExit show ?thesis by (simp add: list_all_update)
  next
    case False
    with assms ChildExit show ?thesis by auto
  qed
next
  case (Communicated i out err now)
  show ?thesis
  proof (cases "i < length (tasks st) \<and> pc (tasks st ! i) = AwaitExit
      \<and> return_code (self (tasks st ! i)) \<noteq> None")
    case True
    with assms have "task_inv (tasks st ! i)" by (simp add: list_all_length)
    with True have pre: "pid (self (tasks st ! i)) \<noteq> None"
      "return_code (self (tasks st ! i)) \<noteq> None"
      "start_time (self (tasks st ! i)) \<noteq> None" "end_time (self (tasks st ! i)) = None"
      "stdout (self (tasks st ! i)) = None" "stderr (self (tasks st ! i)) = None"
      by (simp_all add: task_inv_def)
    from func_communicated_cases [OF pre, of R out err now "records st"]
    show ?thesis
    proof (elim disjE exE conjE)
      assume "func_communicated R out err now (self (tasks st ! i)) (records st)
          = (Some AttributeError, self (tasks st ! i), records st)"
      moreover from pre have "task_inv \<lparr>self = self (tasks st ! i), pc = Raised AttributeError\<rparr>"
        by (simp add: task_inv_def)
      ultimately show ?thesis
        using assms True Communicated by (simp add: list_all_update Let_def)
    next
      fix c' lg'
      assume "func_communicated R out err now (self (tasks st ! i)) (records st)
          = (None, c', lg')"
        and "pid c' \<noteq> None" "Completed c'"
      moreover from this have "task_inv \<lparr>self = c', pc = Returned\<rparr>"
        by (simp add: task_inv_def)
      ultimately show ?thesis
        using assms True Communicated by (simp add: list_all_update Let_def)
    qed
  next
    case False
    with assms Communicated show ?thesis by auto
  qed
qed

lemma list_ex_update_other:
  "list_ex P xs \<Longrightarrow> \<not> P (xs ! i) \<Longrightarrow> list_ex P (xs[i := x])"
proof -
  assume ex: "list_ex P xs" and n: "\<not> P (xs ! i)"
  then obtain j where j: "j < length xs" "P (xs ! j)"
    by (auto simp: list_ex_iff in_set_conv_nth)
  with n have "j \<noteq> i" by auto
  with j have "j < length (xs[i := x])" "P (xs[i := x] ! j)" by simp_all
  then have "xs[i := x] ! j \<in> set (xs[i := x])" "P (xs[i := x] ! j)"
    by (simp_all only: nth_mem)
  then show ?thesis
    unfolding list_ex_iff by blast
qed

lemma list_ex_update_self:
  "i < length xs \<Longrightarrow> P x \<Longrightarrow> list_ex P (xs[i := x])"
  by (auto simp: list_ex_iff intro: set_update_memI)

lemma gather_inv_records [simp]: "gather_inv (st\<lparr>records := lg\<rparr>) = gather_inv st"
  by (simp add: gather_inv_def split: outcome.splits)

lemma gather_inv_not_done:
  assumes "gather_inv st" "i < length (tasks st)" "pc (tasks st ! i) \<noteq> Returned"
  shows "gather st \<noteq> Done"
  using assms by (auto simp: gather_inv_def list_all_length)

lemma gather_inv_suspend:
  assumes inv: "gather_inv st" and i: "i < length (tasks st)"
    and old: "pc (tasks st ! i) = Pending \<or> pc (tasks st ! i) = AwaitSpawn
      \<or> pc (tasks st ! i) = AwaitExit"
    and new: "pc t = AwaitSpawn \<or> pc t = AwaitExit"
  shows "gather_inv (set_task i t st)"
proof (cases "gather st")
  case Waiting
  with inv new show ?thesis
    by (auto simp: gather_inv_def intro!: list_all_update)
next
  case Done
  with gather_inv_not_done [OF inv i] old show ?thesis by auto
next
  case (Failed e)
  with inv old show ?thesis
    by (auto simp: gather_inv_def intro!: list_ex_update_other)
qed

lemma gather_inv_finish:
  assumes inv: "gather_inv st" and i: "i < length (tasks st)"
    and old: "pc (tasks st ! i) = AwaitSpawn \<or> pc (tasks st ! i) = AwaitExit"
    and new: "pc t = Returned \<or> (\<exists>e. pc t = Raised e)"
  shows "gather_inv (gather_done_callback t (set_task i t st))"
proof (cases "gather st")
  case Waiting
  from new show ?thesis
  proof
    assume r: "pc t = Returned"
    from inv Waiting have "list_all (\<lambda>t. case pc t of Raised e \<Rightarrow> False | _ \<Rightarrow> True) (tasks st)"
      by (simp add: gather_inv_def)
    then have "list_all (\<lambda>t. case pc t of Raised e \<Rightarrow> False | _ \<Rightarrow> True) ((tasks st)[i := t])"
      using r by (intro list_all_update) simp_all
    with Waiting r show ?thesis
      by (simp add: gather_inv_def gather_done_callback_def)
  next
    assume "\<exists>e. pc t = Raised e"
    then obtain e where "pc t = Raised e" ..
    with Waiting i show ?thesis
      by (simp add: gather_inv_def gather_done_callback_def list_ex_update_self)
  qed
next
  case Done
  with gather_inv_not_done [OF inv i] old show ?thesis by auto
next
  case (Failed e)
  with inv old show ?thesis
    by (auto simp: gather_inv_def gather_done_callback_def intro!: list_ex_update_other)
qed

lemma step_gather_inv:
  assumes "gather_inv st"
  shows "gather_inv (step R ev st)"
proof (cases ev)
  case (Begin i now)
  with assms show ?thesis
    by (simp add: gather_inv_suspend)
next
  case (Spawn i p)
  with assms show ?thesis
    by (simp add: gather_inv_suspend)
next
  case (SpawnFail i)
  with assms show ?thesis
    by (simp add: gather_inv_finish Let_def)
next
  case (ChildExit i rc)
  with assms show ?thesis
    by (simp add: gather_inv_suspend)
next
  case (Communicated i out err now)
  show ?thesis
  proof (cases "i < length (tasks st) \<and> pc (tasks st ! i) = AwaitExit
      \<and> return_code (self (tasks st ! i)) \<noteq> None")
    case True
    obtain res c lg where f:
      "func_communicated R out err now (self (tasks st ! i)) (records st) = (res, c, lg)"
      by (cases "func_communicated R out err now (self (tasks st ! i)) (records st)")
    let ?t = "\<lparr>self = c, pc = (case res of None \<Rightarrow> Returned | Some e \<Rightarrow> Raised e)\<rparr>"
    have "gather_inv (gather_done_callback ?t (set_task i ?t (st\<lparr>records := lg\<rparr>)))"
      using assms True by (intro gather_inv_finish) (auto split: option.splits)
    with True f Communicated show ?thesis by (simp add: Let_def)
  next
    case False
    with assms Communicated show ?thesis by auto
  qed
qed

lemma Created_Command: "Created (Command s e t)"
  by (simp add: Created_def Command_def)

lemma loop_inv_start: "list_all Created cs \<Longrightarrow> loop_inv (gather_start cs)"
  by (cases cs) (simp_all add: loop_inv_def gather_start_def gather_inv_def task_inv_def
      list_all_iff Created_def)

lemma Created_run_tasks: "list_all Created run_tasks"
  by (simp add: run_tasks_def Created_Command)

lemma exec_loop_inv: "loop_inv st \<Longrightarrow> loop_inv (exec R evs st)"
  by (induction evs arbitrary: st) (simp_all add: loop_inv_def step_task_inv step_gather_inv)

lemma length_tasks_step [simp]: "length (tasks (step R ev st)) = length (tasks st)"
  by (cases ev) (auto simp: Let_def split: prod.splits)

lemma length_tasks_exec [simp]: "length (tasks (exec R evs st)) = length (tasks st)"
  by (induction evs arbitrary: st) simp_all

lemma length_tasks_start [simp]: "length (tasks (gather_start cs)) = length cs"
  by (simp add: gather_start_def)

lemma func_communicated_process:
  "func_communicated R out err now c lg = (res, c', lg') \<Longrightarrow> process c' = process c"
  by (auto simp: func_communicated_def Let_def split: sum.splits prod.splits)

lemma step_return_code_None:
  assumes "return_code (self (tasks st ! i)) = None" and "\<forall>rc. ev \<noteq> ChildExit i rc"
  shows "return_code (self (tasks (step R ev st) ! i)) = None"
proof (cases ev)
  case (Begin j now)
  with assms show ?thesis
    by (auto simp: nth_list_update func_begin_def return_code_def)
next
  case (Spawn j p)
  with assms show ?thesis
    by (auto simp: nth_list_update func_spawned_def return_code_def)
next
  case (SpawnFail j)
  with assms show ?thesis
    by (auto simp: nth_list_update Let_def)
next
  case (ChildExit j rc)
  with assms have "j \<noteq> i" by auto
  with ChildExit assms show ?thesis
    by (auto simp: nth_list_update)
next
  case (Communicated j out err now)
  show ?thesis
  proof (cases "j = i")
    case True
    with Communicated assms show ?thesis by simp
  next
    case False
    with Communicated assms show ?thesis
      by (auto simp: nth_list_update Let_def split: prod.splits)
  qed
qed

lemma exec_return_code_None:
  assumes "return_code (self (tasks st ! i)) = None" and "\<forall>rc. ChildExit i rc \<notin> set evs"
  shows "return_code (self (tasks (exec R evs st) ! i)) = None"
  using assms
proof (induction evs arbitrary: st)
  case Nil
  then show ?case by simp
next
  case (Cons ev evs)
  from Cons.prems have "\<forall>rc. ev \<noteq> ChildExit i rc" by auto
  with Cons.prems(1) have "return_code (self (tasks (step R ev st) ! i)) = None"
    by (rule step_return_code_None)
  moreover from Cons.prems have "\<forall>rc. ChildExit i rc \<notin> set evs" by auto
  ultimately show ?case using Cons.IH by simp
qed

lemma start_return_code_None:
  assumes "list_all Created cs" and "i < length cs"
  shows "return_code (self (tasks (gather_start cs) ! i)) = None"
  using assms by (simp add: gather_start_def list_all_length Created_def return_code_def)

lemma reachable_task_inv:
  assumes "list_all Created cs" "t \<in> set (tasks (exec R evs (gather_start cs)))"
  shows "task_inv t"
  using exec_loop_inv [OF loop_inv_start [OF assms(1)], of R evs] assms(2)
  by (simp add: loop_inv_def list_all_iff)

lemma reachable_task_inv_nth:
  assumes "list_all Created cs" "i < length cs"
  shows "task_inv (tasks (exec R evs (gather_start cs)) ! i)"
proof -
  have "tasks (exec R evs (gather_start cs)) ! i \<in> set (tasks (exec R evs (gather_start cs)))"
    using assms(2) by simp
  with assms(1) show ?thesis by (rule reachable_task_inv)
qed

section \<open>Properties of the batch\<close>

lemma dec_ok: "bytes_to_string (Some [0x6F, 0x6B]) = Inr ''ok''"
  by code_simp

lemma dec_empty: "bytes_to_string (Some []) = Inr []"
  by code_simp

lemmas eval_simps = run_def run_tasks_def sample_progress_def sample_run_failure_def
  sample_pair_def sample_first_then_second_def sample_second_then_first_def
  sample_spawn_failure_def gather_start_def Command_def
  set_task_def gather_done_callback_def func_begin_def func_spawned_def process_exited_def
  func_communicated_def communicate_def parse_streams_on_complete_def dec_ok dec_empty
  write_log_def str_command_def pid_def return_code_def time_delta_def Let_def
  eval_nat_numeral

lemma Created_sample_pair: "list_all Created sample_pair"
  by (simp add: sample_pair_def Created_Command)

lemma run_gather_start: "run R evs = exec R evs (gather_start run_tasks)"
  by (simp add: run_def)

lemma length_run_tasks: "length run_tasks = 5"
  by (simp add: run_tasks_def)

text \<open>
  Claim C8, as stated, fails: when the spawn of the first unit of \<open>run\<close> fails,
  the batch call is over while the second unit, spawned, is still running, neither
  Completed nor failed, and the third has not begun.
\<close>

theorem batch_call_over_unit_running:
  "gather (run plain_render sample_run_failure) = Failed OSError
   \<and> pc (tasks (run plain_render sample_run_failure) ! 1) = AwaitExit
   \<and> \<not> Completed (self (tasks (run plain_render sample_run_failure) ! 1))
   \<and> pc (tasks (run plain_render sample_run_failure) ! 2) = Pending"
  by (simp add: eval_simps Completed_def)

text \<open>
  Claim C8, amended. Whatever the batch and in whatever order the events of its
  units arrive: when the batch call returns, every unit of the batch has returned
  from its coroutine and is Completed; when it ends with an error, that is the
  error of a unit that raised it, and the call has not waited for the others; and
  as long as the call waits, no unit has raised.
\<close>

theorem gather_outcome_units:
  assumes "list_all Created cs"
  shows "(gather (exec R evs (gather_start cs)) = Done \<longrightarrow>
            list_all (\<lambda>t. pc t = Returned \<and> Completed (self t))
              (tasks (exec R evs (gather_start cs))))
       \<and> (gather (exec R evs (gather_start cs)) = Failed e \<longrightarrow>
            list_ex (\<lambda>t. pc t = Raised e) (tasks (exec R evs (gather_start cs))))
       \<and> (gather (exec R evs (gather_start cs)) = Waiting \<longrightarrow>
            list_all (\<lambda>t. \<forall>e. pc t \<noteq> Raised e) (tasks (exec R evs (gather_start cs))))"
proof -
  let ?st = "exec R evs (gather_start cs)"
  have g: "gather_inv ?st" and ti: "list_all task_inv (tasks ?st)"
    using exec_loop_inv [OF loop_inv_start [OF assms], of R evs]
    by (simp_all add: loop_inv_def)
  have "list_all (\<lambda>t. pc t = Returned \<and> Completed (self t)) (tasks ?st)"
    if "gather ?st = Done"
  proof -
    from g that have "list_all (\<lambda>t. pc t = Returned) (tasks ?st)"
      by (simp add: gather_inv_def)
    with ti show ?thesis
      by (auto simp: list_all_iff task_inv_def)
  qed
  moreover have "list_ex (\<lambda>t. pc t = Raised e) (tasks ?st)" if "gather ?st = Failed e"
    using g that by (simp add: gather_inv_def)
  moreover have "list_all (\<lambda>t. \<forall>e. pc t \<noteq> Raised e) (tasks ?st)" if "gather ?st = Waiting"
    using g that by (auto simp: gather_inv_def list_all_iff split: pc.splits)
  ultimately show ?thesis by blast
qed

theorem gather_outcome_units_witness:
  "list_all Created sample_pair \<and> list_all Created run_tasks
   \<and> gather (exec plain_render sample_first_then_second (gather_start sample_pair)) = Done
   \<and> gather (exec plain_render sample_second_then_first (gather_start sample_pair)) = Done
   \<and> map fst (records (exec plain_render sample_first_then_second (gather_start sample_pair)))
       = [INFO, ERROR]
   \<and> map fst (records (exec plain_render sample_second_then_first (gather_start sample_pair)))
       = [ERROR, INFO]
   \<and> list_all (\<lambda>t. pc t = Returned \<and> Completed (self t))
         (tasks (exec plain_render sample_first_then_second (gather_start sample_pair)))
   \<and> list_all (\<lambda>t. pc t = Returned \<and> Completed (self t))
         (tasks (exec plain_render sample_second_then_first (gather_start sample_pair)))
   \<and> gather (exec plain_render sample_run_failure (gather_start run_tasks)) = Failed OSError
   \<and> list_ex (\<lambda>t. pc t = Raised OSError)
         (tasks (exec plain_render sample_run_failure (gather_start run_tasks)))
   \<and> gather (exec plain_render sample_progress (gather_start run_tasks)) = Waiting
   \<and> list_all (\<lambda>t. \<forall>e. pc t \<noteq> Raised e)
         (tasks (exec plain_render sample_progress (gather_start run_tasks)))"
proof -
  have c: "list_all Created sample_pair" and r: "list_all Created run_tasks"
    by (simp_all add: sample_pair_def run_tasks_def Created_Command)
  have a: "gather (exec plain_render sample_first_then_second (gather_start sample_pair)) = Done"
    by (simp add: eval_simps)
  have b: "gather (exec plain_render sample_second_then_first (gather_start sample_pair)) = Done"
    by (simp add: eval_simps)
  have la: "map fst (records (exec plain_render sample_first_then_second
      (gather_start sample_pair))) = [INFO, ERROR]"
    by (simp add: eval_simps)
  have lb: "map fst (records (exec plain_render sample_second_then_first
      (gather_start sample_pair))) = [ERROR, INFO]"
    by (simp add: eval_simps)
  have f: "gather (exec plain_render sample_run_failure (gather_start run_tasks)) = Failed OSError"
    by (simp add: eval_simps)
  have w: "gather (exec plain_render sample_progress (gather_start run_tasks)) = Waiting"
    by (simp add: eval_simps)
  from gather_outcome_units [OF c, of plain_render sample_first_then_second] a
  have ta: "list_all (\<lambda>t. pc t = Returned \<and> Completed (self t))
      (tasks (exec plain_render sample_first_then_second (gather_start sample_pair)))"
    by simp
  from gather_outcome_units [OF c, of plain_render sample_second_then_first] b
  have tb: "list_all (\<lambda>t. pc t = Returned \<and> Completed (self t))
      (tasks (exec plain_render sample_second_then_first (gather_start sample_pair)))"
    by simp
  from gather_outcome_units [OF r, of plain_render sample_run_failure OSError] f
  have tf: "list_ex (\<lambda>t. pc t = Raised OSError)
      (tasks (exec plain_render sample_run_failure (gather_start run_tasks)))"
    by simp
  from gather_outcome_units [OF r, of plain_render sample_progress] w
  have tw: "list_all (\<lambda>t. \<forall>e. pc t \<noteq> Raised e)
      (tasks (exec plain_render sample_progress (gather_start run_tasks)))"
    by simp
  from c r a b la lb ta tb f tf w tw show ?thesis by blast
qed

text \<open>
  Claim C7, as stated, fails: when the spawn has completed the identifier is
  present and the exit status is still absent.
\<close>

theorem spawned_without_exit_status:
  "pc (tasks (run plain_render sample_progress) ! 1) = AwaitExit
   \<and> pid (self (tasks (run plain_render sample_progress) ! 1)) = Some 4243
   \<and> return_code (self (tasks (run plain_render sample_progress) ! 1)) = None"
  by (simp add: eval_simps)

text \<open>
  Claim C7, amended. For every unit of a batch, identifier and exit status are
  both absent until the process is spawned (and stay so when the spawn fails);
  when the spawn has completed the identifier is present, and the exit status is
  absent as long as the child has not exited; the exit status is never present
  without the identifier, and both are present once the coroutine has gone on
  after the exit of the child. The decoded stdout and stderr are set only in the
  Completed state.
\<close>

theorem unit_lifecycle:
  assumes "list_all Created cs" and "i < length cs"
    and "t = tasks (exec R evs (gather_start cs)) ! i"
  shows "(pc t = Pending \<or> pc t = AwaitSpawn \<or> pc t = Raised OSError
            \<longrightarrow> pid (self t) = None \<and> return_code (self t) = None)
       \<and> (pc t = AwaitExit \<longrightarrow> pid (self t) \<noteq> None)
       \<and> ((\<forall>rc. ChildExit i rc \<notin> set evs) \<longrightarrow> return_code (self t) = None)
       \<and> (return_code (self t) \<noteq> None \<longrightarrow> pid (self t) \<noteq> None)
       \<and> (pc t = Returned \<or> pc t = Raised AttributeError
            \<longrightarrow> pid (self t) \<noteq> None \<and> return_code (self t) \<noteq> None)
       \<and> (stdout (self t) \<noteq> None \<or> stderr (self t) \<noteq> None
            \<longrightarrow> pc t = Returned \<and> Completed (self t))"
proof -
  have inv: "task_inv t"
    unfolding assms(3) using assms(1,2) by (rule reachable_task_inv_nth)
  have tr: "return_code (self t) = None" if "\<forall>rc. ChildExit i rc \<notin> set evs"
    unfolding assms(3)
    using start_return_code_None [OF assms(1,2)] that by (rule exec_return_code_None)
  from inv have rest:
    "(pc t = Pending \<or> pc t = AwaitSpawn \<or> pc t = Raised OSError
            \<longrightarrow> pid (self t) = None \<and> return_code (self t) = None)
       \<and> (pc t = AwaitExit \<longrightarrow> pid (self t) \<noteq> None)
       \<and> (return_code (self t) \<noteq> None \<longrightarrow> pid (self t) \<noteq> None)
       \<and> (pc t = Returned \<or> pc t = Raised AttributeError
            \<longrightarrow> pid (self t) \<noteq> None \<and> return_code (self t) \<noteq> None)
       \<and> (stdout (self t) \<noteq> None \<or> stderr (self t) \<noteq> None
            \<longrightarrow> pc t = Returned \<and> Completed (self t))"
    by (cases "pc t")
      (auto simp: task_inv_def pid_def return_code_def Completed_def
        split: option.splits if_splits)
  with tr show ?thesis by blast
qed

theorem unit_lifecycle_witness:
  "list_all Created run_tasks
   \<and> map pc (tasks (run plain_render sample_progress))
       = [Returned, AwaitExit, AwaitExit, AwaitSpawn, Pending]
   \<and> pid (self (tasks (run plain_render sample_progress) ! 0)) \<noteq> None
   \<and> return_code (self (tasks (run plain_render sample_progress) ! 0)) \<noteq> None
   \<and> stdout (self (tasks (run plain_render sample_progress) ! 0)) = Some ''ok''
   \<and> Completed (self (tasks (run plain_render sample_progress) ! 0))
   \<and> pid (self (tasks (run plain_render sample_progress) ! 1)) \<noteq> None
   \<and> return_code (self (tasks (run plain_render sample_progress) ! 1)) = None
   \<and> return_code (self (tasks (run plain_render sample_progress) ! 2)) = Some 1
   \<and> pid (self (tasks (run plain_render sample_progress) ! 2)) \<noteq> None
   \<and> pid (self (tasks (run plain_render sample_progress) ! 3)) = None
   \<and> return_code (self (tasks (run plain_render sample_progress) ! 3)) = None
   \<and> pid (self (tasks (run plain_render sample_progress) ! 4)) = None
   \<and> return_code (self (tasks (run plain_render sample_progress) ! 4)) = None"
proof -
  let ?st = "run plain_render sample_progress"
  note st = run_gather_start [of plain_render sample_progress]
  have c: "list_all Created run_tasks"
    by (simp add: run_tasks_def Created_Command)
  have n: "(0::nat) < length run_tasks" "(1::nat) < length run_tasks"
    "(2::nat) < length run_tasks" "(3::nat) < length run_tasks" "(4::nat) < length run_tasks"
    by (simp_all add: run_tasks_def)
  have p: "map pc (tasks ?st) = [Returned, AwaitExit, AwaitExit, AwaitSpawn, Pending]"
    by (simp add: eval_simps)
  have p0: "pc (tasks ?st ! 0) = Returned" and p1: "pc (tasks ?st ! 1) = AwaitExit"
    and p3: "pc (tasks ?st ! 3) = AwaitSpawn" and p4: "pc (tasks ?st ! 4) = Pending"
    by (simp_all add: eval_simps)
  have s: "stdout (self (tasks ?st ! 0)) = Some ''ok''"
    by (simp add: eval_simps)
  have r2: "return_code (self (tasks ?st ! 2)) = Some 1"
    by (simp add: eval_simps)
  have e1: "\<forall>rc. ChildExit 1 rc \<notin> set sample_progress"
    by (simp add: sample_progress_def)
  from unit_lifecycle [OF c n(1) st [THEN arg_cong, of "\<lambda>s. tasks s ! 0"]] p0 s
  have 0: "pid (self (tasks ?st ! 0)) \<noteq> None" "return_code (self (tasks ?st ! 0)) \<noteq> None"
    "Completed (self (tasks ?st ! 0))"
    by simp_all
  from unit_lifecycle [OF c n(2) st [THEN arg_cong, of "\<lambda>s. tasks s ! 1"]] p1 e1
  have 1: "pid (self (tasks ?st ! 1)) \<noteq> None" "return_code (self (tasks ?st ! 1)) = None"
    by simp_all
  from unit_lifecycle [OF c n(3) st [THEN arg_cong, of "\<lambda>s. tasks s ! 2"]] r2
  have 2: "pid (self (tasks ?st ! 2)) \<noteq> None"
    by simp
  from unit_lifecycle [OF c n(4) st [THEN arg_cong, of "\<lambda>s. tasks s ! 3"]] p3
  have 3: "pid (self (tasks ?st ! 3)) = None" "return_code (self (tasks ?st ! 3)) = None"
    by simp_all
  from unit_lifecycle [OF c n(5) st [THEN arg_cong, of "\<lambda>s. tasks s ! 4"]] p4
  have 4: "pid (self (tasks ?st ! 4)) = None" "return_code (self (tasks ?st ! 4)) = None"
    by simp_all
  from c p s r2 0 1 2 3 4 show ?thesis by blast
qed

text \<open>
  Claim C2, as stated, fails for the exit status: on a unit that has not
  completed, \<open>return_code\<close> raises nothing; it yields \<open>None\<close>, or the exit
  status when the child has exited and the coroutine has not yet gone on.
\<close>

theorem exit_status_query_silent:
  "\<not> Completed (Command ''sfc /scannow'' None None)
   \<and> return_code (Command ''sfc /scannow'' None None) = None
   \<and> \<not> Completed unit_running \<and> return_code unit_running = None
   \<and> pc (tasks (run plain_render sample_progress) ! 2) = AwaitExit
   \<and> \<not> Completed (self (tasks (run plain_render sample_progress) ! 2))
   \<and> return_code (self (tasks (run plain_render sample_progress) ! 2)) = Some 1"
  by (simp add: eval_simps Completed_def unit_running_def)

text \<open>
  Claim C2, amended. For every unit of a batch that has not completed, querying
  the elapsed time fails with an error, the \<open>TypeError\<close> of a subtraction on a
  missing time stamp; querying the exit status raises nothing and yields
  \<open>None\<close> as long as the child has not exited.
\<close>

theorem not_completed_queries:
  assumes "list_all Created cs" and "i < length cs"
    and "t = tasks (exec R evs (gather_start cs)) ! i"
  shows "(\<not> Completed (self t) \<longrightarrow> time_delta (self t) = Inl TypeError)
       \<and> ((\<forall>rc. ChildExit i rc \<notin> set evs) \<longrightarrow> return_code (self t) = None)"
proof -
  have inv: "task_inv t"
    unfolding assms(3) using assms(1,2) by (rule reachable_task_inv_nth)
  have "return_code (self t) = None" if "\<forall>rc. ChildExit i rc \<notin> set evs"
    unfolding assms(3)
    using start_return_code_None [OF assms(1,2)] that by (rule exec_return_code_None)
  moreover have "time_delta (self t) = Inl TypeError" if "\<not> Completed (self t)"
    using inv that
    by (cases "pc t") (auto simp: task_inv_def time_delta_def split: option.splits if_splits)
  ultimately show ?thesis by blast
qed

theorem not_completed_queries_witness:
  "list_all Created run_tasks
   \<and> \<not> Completed (self (tasks (run plain_render sample_progress) ! 1))
   \<and> time_delta (self (tasks (run plain_render sample_progress) ! 1)) = Inl TypeError
   \<and> return_code (self (tasks (run plain_render sample_progress) ! 1)) = None
   \<and> \<not> Completed (self (tasks (run plain_render sample_progress) ! 2))
   \<and> time_delta (self (tasks (run plain_render sample_progress) ! 2)) = Inl TypeError
   \<and> return_code (self (tasks (run plain_render sample_progress) ! 2)) = Some 1"
proof -
  let ?st = "run plain_render sample_progress"
  note st = run_gather_start [of plain_render sample_progress]
  have c: "list_all Created run_tasks"
    by (simp add: run_tasks_def Created_Command)
  have n: "(1::nat) < length run_tasks" "(2::nat) < length run_tasks"
    by (simp_all add: run_tasks_def)
  have nc: "\<not> Completed (self (tasks ?st ! 1))" "\<not> Completed (self (tasks ?st ! 2))"
    by (simp_all add: eval_simps Completed_def)
  have r2: "return_code (self (tasks ?st ! 2)) = Some 1"
    by (simp add: eval_simps)
  have e1: "\<forall>rc. ChildExit 1 rc \<notin> set sample_progress"
    by (simp add: sample_progress_def)
  from not_completed_queries [OF c n(1) st [THEN arg_cong, of "\<lambda>s. tasks s ! 1"]] nc(1) e1
  have 1: "time_delta (self (tasks ?st ! 1)) = Inl TypeError"
    "return_code (self (tasks ?st ! 1)) = None"
    by simp_all
  from not_completed_queries [OF c n(2) st [THEN arg_cong, of "\<lambda>s. tasks s ! 2"]] nc(2)
  have 2: "time_delta (self (tasks ?st ! 2)) = Inl TypeError"
    by simp
  from c nc r2 1 2 show ?thesis by blast
qed

text \<open>
  Claim C1, as stated, fails: when the spawn of the first unit of a pair fails,
  \<open>gather\<close> has failed with that error while the second unit is still waiting
  for its own spawn.
\<close>

theorem spawn_failure_not_awaited:
  "gather (exec plain_render sample_spawn_failure (gather_start sample_pair)) = Failed OSError
   \<and> pc (tasks (exec plain_render sample_spawn_failure (gather_start sample_pair)) ! 1)
       = AwaitSpawn
   \<and> \<not> Completed (self (tasks (exec plain_render sample_spawn_failure
                                   (gather_start sample_pair)) ! 1))"
  by (simp add: eval_simps Completed_def)

text \<open>
  Claim C1, amended. If the spawn of one unit fails while the batch call is
  waiting, the call fails with that spawn error at that very step, without
  waiting for the other units; the failure leaves the other units and the log as
  they are.
\<close>

theorem spawn_failure_immediate:
  assumes "gather st = Waiting" and "i < length (tasks st)" and "pc (tasks st ! i) = AwaitSpawn"
  shows "gather (step R (SpawnFail i) st) = Failed OSError
       \<and> records (step R (SpawnFail i) st) = records st
       \<and> length (tasks (step R (SpawnFail i) st)) = length (tasks st)
       \<and> (\<forall>j. j \<noteq> i \<longrightarrow> tasks (step R (SpawnFail i) st) ! j = tasks st ! j)"
  using assms by (simp add: Let_def gather_done_callback_def set_task_def)

theorem spawn_failure_immediate_witness:
  "gather (exec plain_render [Begin 0 1000000, Begin 1 1000001] (gather_start sample_pair))
     = Waiting
   \<and> pc (tasks (exec plain_render [Begin 0 1000000, Begin 1 1000001]
                  (gather_start sample_pair)) ! 0) = AwaitSpawn
   \<and> gather (step plain_render (SpawnFail 0)
        (exec plain_render [Begin 0 1000000, Begin 1 1000001] (gather_start sample_pair)))
       = Failed OSError
   \<and> pc (tasks (step plain_render (SpawnFail 0)
        (exec plain_render [Begin 0 1000000, Begin 1 1000001] (gather_start sample_pair))) ! 1)
       = AwaitSpawn"
proof -
  let ?st = "exec plain_render [Begin 0 1000000, Begin 1 1000001] (gather_start sample_pair)"
  have g: "gather ?st = Waiting" and l: "0 < length (tasks ?st)"
    and p: "pc (tasks ?st ! 0) = AwaitSpawn" and q: "pc (tasks ?st ! 1) = AwaitSpawn"
    by (simp_all add: eval_simps)
  from spawn_failure_immediate [OF g l p, of plain_render] g p q show ?thesis
    by simp
qed

section \<open>Properties of the text decoder\<close>

lemma set_replace: "set (replace old new s) \<subseteq> set s \<union> set new"
proof (induction old new s rule: replace.induct)
  case (1 old new)
  then show ?case by auto
next
  case (2 old new c cs)
  show ?case
  proof (cases "old = []")
    case True
    with 2 show ?thesis by auto
  next
    case False
    show ?thesis
    proof (cases "prefix old (c # cs)")
      case True
      with False 2 have "set (replace old new (drop (length old) (c # cs)))
          \<subseteq> set (drop (length old) (c # cs)) \<union> set new"
        by simp
      moreover have "set (drop (length old) (c # cs)) \<subseteq> set (c # cs)"
        by (rule set_drop_subset)
      ultimately show ?thesis using True False by auto
    next
      case False': False
      with \<open>old \<noteq> []\<close> 2 show ?thesis by auto
    qed
  qed
qed

lemma replace1_append:
  "replace [a] new (A @ B) = replace [a] new A @ replace [a] new B"
  by (induction A) auto

lemma replace2_append:
  assumes "A = [] \<or> last A \<noteq> a \<or> B = [] \<or> hd B \<noteq> b"
  shows "replace [a, b] new (A @ B) = replace [a, b] new A @ replace [a, b] new B"
  using assms
proof (induction A rule: length_induct)
  case (1 A)
  show ?case
  proof (cases A)
    case Nil
    then show ?thesis by simp
  next
    case (Cons c cs)
    show ?thesis
    proof (cases "prefix [a, b] (c # cs)")
      case True
      then obtain cs' where cs: "c = a" "cs = b # cs'"
        by (cases cs) auto
      have "cs' = [] \<or> last cs' \<noteq> a \<or> B = [] \<or> hd B \<noteq> b"
        using 1(2) Cons cs by (cases "cs' = []") auto
      with 1(1) Cons cs
      have "replace [a, b] new (cs' @ B) = replace [a, b] new cs' @ replace [a, b] new B"
        by simp
      with Cons cs show ?thesis by simp
    next
      case False
      show ?thesis
      proof (cases cs)
        case Nil
        with Cons 1(2) have "\<not> prefix [a, b] (c # B)"
          by (cases B) auto
        with Cons Nil show ?thesis by auto
      next
        case (Cons d ds)
        with False have np: "\<not> prefix [a, b] (c # cs @ B)"
          by auto
        have "cs = [] \<or> last cs \<noteq> a \<or> B = [] \<or> hd B \<noteq> b"
          using 1(2) \<open>A = c # cs\<close> Cons by auto
        with 1(1) \<open>A = c # cs\<close>
        have "replace [a, b] new (cs @ B) = replace [a, b] new cs @ replace [a, b] new B"
          by simp
        moreover have "replace [a, b] new (c # cs @ B) = c # replace [a, b] new (cs @ B)"
          using np by auto
        moreover have "replace [a, b] new (c # cs) = c # replace [a, b] new cs"
          using False by auto
        ultimately show ?thesis using \<open>A = c # cs\<close> by simp
      qed
    qed
  qed
qed

lemma slice_str_bytes: "slice_2_m1 (str_bytes bs) = bytes_repr_body (bytes_repr_quote bs) bs"
  by (simp add: slice_2_m1_def str_bytes_def Let_def)

lemma bytes_to_string_decode_quoted:
  "bytes_to_string (Some bs) = Inr (decode_quoted (bytes_repr_quote (replace [0x00] [] bs)) bs)"
  by (simp add: bytes_to_string_def decode_quoted_def slice_str_bytes Let_def)

lemma bytes_repr_quote_cases: "bytes_repr_quote bs = CHR 0x22 \<or> bytes_repr_quote bs = CHR 0x27"
  by (simp add: bytes_repr_quote_def)

lemma printable_quote: "printable_ascii (bytes_repr_quote bs)"
  by (simp add: bytes_repr_quote_def printable_ascii_def)

lemma unat_byte_less: "unat (b :: byte) < 256"
  using unsigned_less [of b, where 'a = nat] by simp

lemma printable_hexdigit: "n < 16 \<Longrightarrow> printable_ascii (hexdigits ! n)"
proof -
  have "list_all printable_ascii hexdigits"
    by (simp add: hexdigits_def printable_ascii_def)
  moreover have "length hexdigits = 16"
    by (simp add: hexdigits_def)
  ultimately show "n < 16 \<Longrightarrow> printable_ascii (hexdigits ! n)"
    by (simp add: list_all_length)
qed

lemma printable_plain_byte:
  assumes "\<not> (b < 0x20 \<or> 0x7F \<le> b)"
  shows "printable_ascii (char_of (unat (b :: byte)))"
proof -
  from assms have "32 \<le> unat b" "unat b < 127"
    by (simp_all add: word_less_nat_alt word_le_nat_alt not_less not_le)
  then show ?thesis
    by (simp add: printable_ascii_def)
qed

lemma printable_escape:
  assumes "printable_ascii q" and "c \<in> set (bytes_repr_escape q b)"
  shows "printable_ascii c"
proof -
  have bs: "printable_ascii (CHR 0x5C)" "printable_ascii CHR ''t''" "printable_ascii CHR ''n''"
    "printable_ascii CHR ''r''" "printable_ascii CHR ''x''"
    by (simp_all add: printable_ascii_def)
  have h: "printable_ascii (hexdigits ! (unat b div 16))"
    "printable_ascii (hexdigits ! (unat b mod 16))"
    using unat_byte_less [of b] by (simp_all add: printable_hexdigit div_less_iff_less_mult)
  show ?thesis
  proof (cases "char_of (unat b) = q \<or> b = 0x5C")
    case True
    then have "bytes_repr_escape q b = [CHR 0x5C, char_of (unat b)]"
      by (simp add: bytes_repr_escape_def)
    with assms(2) have "c = CHR 0x5C \<or> c = char_of (unat b)" by simp
    moreover have "printable_ascii (char_of (unat b))"
      using True assms(1) by (auto simp: printable_ascii_def)
    ultimately show ?thesis using bs by auto
  next
    case F1: False
    show ?thesis
    proof (cases "b = 0x09 \<or> b = 0x0A \<or> b = 0x0D")
      case True
      with F1 have "set (bytes_repr_escape q b)
          \<subseteq> {CHR 0x5C, CHR ''t'', CHR ''n'', CHR ''r''}"
        by (auto simp: bytes_repr_escape_def)
      with assms(2) bs show ?thesis by auto
    next
      case F2: False
      show ?thesis
      proof (cases "b < 0x20 \<or> 0x7F \<le> b")
        case True
        with F1 F2 have "bytes_repr_escape q b =
            [CHR 0x5C, CHR ''x'', hexdigits ! (unat b div 16), hexdigits ! (unat b mod 16)]"
          by (simp add: bytes_repr_escape_def)
        with assms(2) bs h show ?thesis by auto
      next
        case False
        with F1 F2 have "bytes_repr_escape q b = [char_of (unat b)]"
          by (simp add: bytes_repr_escape_def)
        with assms(2) printable_plain_byte [OF False] show ?thesis by simp
      qed
    qed
  qed
qed

lemma printable_body:
  assumes "printable_ascii q" and "c \<in> set (bytes_repr_body q bs)"
  shows "printable_ascii c"
proof -
  from assms(2) obtain b where "c \<in> set (bytes_repr_escape q b)"
    by (auto simp: bytes_repr_body_def)
  with assms(1) show ?thesis by (rule printable_escape)
qed

lemma printable_decode_quoted:
  assumes "printable_ascii q" and "c \<in> set (decode_quoted q bs)"
  shows "printable_ascii c"
proof -
  let ?b = "bytes_repr_body q (replace [0x00] [] bs)"
  let ?r0 = "replace [CHR 0x0D] [] ?b"
  let ?r1 = "replace [CHR 0x5C, CHR ''r''] [] ?r0"
  have "set (decode_quoted q bs) \<subseteq> set ?r1 \<union> set '' ''"
    unfolding decode_quoted_def by (rule set_replace)
  with assms(2) have 1: "c \<in> set ?r1 \<or> c = CHR '' ''" by auto
  have 2: "set ?r1 \<subseteq> set ?r0"
    using set_replace [of "[CHR 0x5C, CHR ''r'']" "[]" ?r0] by simp
  have 3: "set ?r0 \<subseteq> set ?b"
    using set_replace [of "[CHR 0x0D]" "[]" ?b] by simp
  from 1 show ?thesis
  proof
    assume "c \<in> set ?r1"
    with 2 3 have "c \<in> set ?b" by (meson subsetD)
    with assms(1) show ?thesis by (rule printable_body)
  next
    assume "c = CHR '' ''"
    then show ?thesis by (simp add: printable_ascii_def)
  qed
qed

lemma strip_append:
  "replace [0x00 :: byte] [] (xs @ ys) = replace [0x00] [] xs @ replace [0x00] [] ys"
  by (rule replace1_append)

lemma body_append:
  "bytes_repr_body q (xs @ ys) = bytes_repr_body q xs @ bytes_repr_body q ys"
  by (simp add: bytes_repr_body_def)

lemma decode_quoted_lf:
  assumes "q = CHR 0x22 \<or> q = CHR 0x27"
  shows "decode_quoted q (xs @ [0x0A] @ ys) = decode_quoted q xs @ '' '' @ decode_quoted q ys"
proof -
  let ?A = "bytes_repr_body q (replace [0x00] [] xs)"
  let ?B = "bytes_repr_body q (replace [0x00] [] ys)"
  let ?R0 = "replace [CHR 0x0D] []"
  let ?R1 = "replace [CHR 0x5C, CHR ''r''] []"
  let ?R2 = "replace [CHR 0x5C, CHR ''n''] '' ''"
  have e: "bytes_repr_escape q 0x0A = [CHR 0x5C, CHR ''n'']"
    using assms by (auto simp: bytes_repr_escape_def char_of_eq_iff)
  have s: "replace [0x00 :: byte] [] [0x0A] = [0x0A]"
    by simp
  have body: "bytes_repr_body q (replace [0x00] [] (xs @ [0x0A] @ ys))
      = ?A @ [CHR 0x5C, CHR ''n''] @ ?B"
    by (simp only: strip_append s body_append) (simp add: bytes_repr_body_def e)
  have r0: "?R0 (?A @ [CHR 0x5C, CHR ''n''] @ ?B) = ?R0 ?A @ [CHR 0x5C, CHR ''n''] @ ?R0 ?B"
    by (simp add: replace1_append)
  have r1: "?R1 (?R0 ?A @ [CHR 0x5C, CHR ''n''] @ ?R0 ?B)
      = ?R1 (?R0 ?A) @ [CHR 0x5C, CHR ''n''] @ ?R1 (?R0 ?B)"
  proof -
    have "?R1 (?R0 ?A @ ([CHR 0x5C, CHR ''n''] @ ?R0 ?B))
        = ?R1 (?R0 ?A) @ ?R1 ([CHR 0x5C, CHR ''n''] @ ?R0 ?B)"
      by (rule replace2_append) simp
    moreover have "?R1 ([CHR 0x5C, CHR ''n''] @ ?R0 ?B) = [CHR 0x5C, CHR ''n''] @ ?R1 (?R0 ?B)"
      by simp
    ultimately show ?thesis by simp
  qed
  have r2: "?R2 (?R1 (?R0 ?A) @ [CHR 0x5C, CHR ''n''] @ ?R1 (?R0 ?B))
      = ?R2 (?R1 (?R0 ?A)) @ '' '' @ ?R2 (?R1 (?R0 ?B))"
  proof -
    have "?R2 (?R1 (?R0 ?A) @ ([CHR 0x5C, CHR ''n''] @ ?R1 (?R0 ?B)))
        = ?R2 (?R1 (?R0 ?A)) @ ?R2 ([CHR 0x5C, CHR ''n''] @ ?R1 (?R0 ?B))"
      by (rule replace2_append) simp
    moreover have "?R2 ([CHR 0x5C, CHR ''n''] @ ?R1 (?R0 ?B)) = '' '' @ ?R2 (?R1 (?R0 ?B))"
      by simp
    ultimately show ?thesis by simp
  qed
  show ?thesis
    unfolding decode_quoted_def body r0 r1 r2 ..
qed

lemma decode_quoted_crlf:
  assumes "q = CHR 0x22 \<or> q = CHR 0x27"
  shows "decode_quoted q (xs @ [0x0D, 0x0A] @ ys)
      = decode_quoted q xs @ '' '' @ decode_quoted q ys"
proof -
  let ?A = "bytes_repr_body q (replace [0x00] [] xs)"
  let ?B = "bytes_repr_body q (replace [0x00] [] ys)"
  let ?R0 = "replace [CHR 0x0D] []"
  let ?R1 = "replace [CHR 0x5C, CHR ''r''] []"
  let ?R2 = "replace [CHR 0x5C, CHR ''n''] '' ''"
  let ?T = "[CHR 0x5C, CHR ''r'', CHR 0x5C, CHR ''n'']"
  have e: "bytes_repr_escape q 0x0A = [CHR 0x5C, CHR ''n'']"
    "bytes_repr_escape q 0x0D = [CHR 0x5C, CHR ''r'']"
    using assms by (auto simp: bytes_repr_escape_def char_of_eq_iff)
  have s: "replace [0x00 :: byte] [] [0x0D, 0x0A] = [0x0D, 0x0A]"
    by simp
  have body: "bytes_repr_body q (replace [0x00] [] (xs @ [0x0D, 0x0A] @ ys)) = ?A @ ?T @ ?B"
    by (simp only: strip_append s body_append) (simp add: bytes_repr_body_def e)
  have r0: "?R0 (?A @ ?T @ ?B) = ?R0 ?A @ ?T @ ?R0 ?B"
    by (simp add: replace1_append)
  have r1: "?R1 (?R0 ?A @ ?T @ ?R0 ?B) = ?R1 (?R0 ?A) @ [CHR 0x5C, CHR ''n''] @ ?R1 (?R0 ?B)"
  proof -
    have "?R1 (?R0 ?A @ (?T @ ?R0 ?B)) = ?R1 (?R0 ?A) @ ?R1 (?T @ ?R0 ?B)"
      by (rule replace2_append) simp
    moreover have "?R1 (?T @ ?R0 ?B) = [CHR 0x5C, CHR ''n''] @ ?R1 (?R0 ?B)"
      by simp
    ultimately show ?thesis by simp
  qed
  have r2: "?R2 (?R1 (?R0 ?A) @ [CHR 0x5C, CHR ''n''] @ ?R1 (?R0 ?B))
      = ?R2 (?R1 (?R0 ?A)) @ '' '' @ ?R2 (?R1 (?R0 ?B))"
  proof -
    have "?R2 (?R1 (?R0 ?A) @ ([CHR 0x5C, CHR ''n''] @ ?R1 (?R0 ?B)))
        = ?R2 (?R1 (?R0 ?A)) @ ?R2 ([CHR 0x5C, CHR ''n''] @ ?R1 (?R0 ?B))"
      by (rule replace2_append) simp
    moreover have "?R2 ([CHR 0x5C, CHR ''n''] @ ?R1 (?R0 ?B)) = '' '' @ ?R2 (?R1 (?R0 ?B))"
      by simp
    ultimately show ?thesis by simp
  qed
  show ?thesis
    unfolding decode_quoted_def body r0 r1 r2 ..
qed

lemma replace2_inert:
  assumes "tok \<noteq> []" and "hd tok \<noteq> b" and "last tok \<noteq> a"
    and "replace [a, b] new tok = tok"
  shows "replace [a, b] new (A @ tok @ B) = replace [a, b] new A @ tok @ replace [a, b] new B"
proof -
  have "replace [a, b] new (A @ (tok @ B))
      = replace [a, b] new A @ replace [a, b] new (tok @ B)"
    using assms(1,2) by (intro replace2_append) simp
  moreover have "replace [a, b] new (tok @ B) = replace [a, b] new tok @ replace [a, b] new B"
    using assms(3) by (intro replace2_append) simp
  ultimately show ?thesis using assms(4) by simp
qed

lemma decode_quoted_inert:
  assumes body: "bytes_repr_body q (replace [0x00] [] mid) = tok"
    and ne: "tok \<noteq> []"
    and hd: "hd tok \<noteq> CHR ''r''" "hd tok \<noteq> CHR ''n''"
    and last: "last tok \<noteq> CHR 0x5C"
    and r0: "replace [CHR 0x0D] [] tok = tok"
    and r1: "replace [CHR 0x5C, CHR ''r''] [] tok = tok"
    and r2: "replace [CHR 0x5C, CHR ''n''] '' '' tok = tok"
  shows "decode_quoted q (xs @ mid @ ys) = decode_quoted q xs @ tok @ decode_quoted q ys"
proof -
  let ?A = "bytes_repr_body q (replace [0x00] [] xs)"
  let ?B = "bytes_repr_body q (replace [0x00] [] ys)"
  let ?R0 = "replace [CHR 0x0D] []"
  let ?R1 = "replace [CHR 0x5C, CHR ''r''] []"
  let ?R2 = "replace [CHR 0x5C, CHR ''n''] '' ''"
  have b: "bytes_repr_body q (replace [0x00] [] (xs @ mid @ ys)) = ?A @ tok @ ?B"
    by (simp only: strip_append body_append body)
  have 0: "?R0 (?A @ tok @ ?B) = ?R0 ?A @ tok @ ?R0 ?B"
    by (simp only: replace1_append r0)
  have 1: "?R1 (?R0 ?A @ tok @ ?R0 ?B) = ?R1 (?R0 ?A) @ tok @ ?R1 (?R0 ?B)"
    using ne hd(1) last r1 by (rule replace2_inert)
  have 2: "?R2 (?R1 (?R0 ?A) @ tok @ ?R1 (?R0 ?B)) = ?R2 (?R1 (?R0 ?A)) @ tok @ ?R2 (?R1 (?R0 ?B))"
    using ne hd(2) last r2 by (rule replace2_inert)
  show ?thesis
    unfolding decode_quoted_def b 0 1 2 ..
qed

lemma replace1_filter: "replace [a] [] bs = filter (\<lambda>x. x \<noteq> a) bs"
  by (induction bs) auto

lemma quote_strip: "bytes_repr_quote (replace [0x00] [] bs) = bytes_repr_quote bs"
  by (simp add: bytes_repr_quote_def replace1_filter)

lemma bytes_to_string_eq:
  "bytes_to_string (Some bs) = Inr (decode_quoted (bytes_repr_quote bs) bs)"
  by (simp add: bytes_to_string_decode_quoted quote_strip)

lemma not_printable_ctrl:
  "\<not> printable_ascii (CHR 0x00)" "\<not> printable_ascii (CHR 0x0D)" "\<not> printable_ascii (CHR 0x0A)"
  by (simp_all add: printable_ascii_def)

lemma hexdigit_inert:
  assumes "n < 16"
  shows "hexdigits ! n \<noteq> CHR 0x5C" and "hexdigits ! n \<noteq> CHR 0x0D"
proof -
  have "list_all (\<lambda>c. c \<noteq> CHR 0x5C \<and> c \<noteq> CHR 0x0D) hexdigits"
    by (simp add: hexdigits_def)
  moreover have "length hexdigits = 16"
    by (simp add: hexdigits_def)
  ultimately have "hexdigits ! n \<noteq> CHR 0x5C \<and> hexdigits ! n \<noteq> CHR 0x0D"
    using assms by (simp add: list_all_length)
  then show "hexdigits ! n \<noteq> CHR 0x5C" and "hexdigits ! n \<noteq> CHR 0x0D"
    by simp_all
qed

lemma char_of_unat_eq: "char_of (unat (b :: byte)) = c \<longleftrightarrow> unat b = of_char c"
  using unat_byte_less [of b] by (simp add: char_of_eq_iff take_bit_eq_mod)

lemma escape_hex:
  assumes q: "q = CHR 0x22 \<or> q = CHR 0x27"
    and np: "b < 0x20 \<or> 0x7F \<le> b"
    and ex: "b \<noteq> 0x09" "b \<noteq> 0x0A" "b \<noteq> 0x0D"
  shows "bytes_repr_escape q b =
      [CHR 0x5C, CHR ''x'', hexdigits ! (unat b div 16), hexdigits ! (unat b mod 16)]"
proof -
  from np have r: "unat b < 32 \<or> 127 \<le> unat b"
    by (simp add: word_less_nat_alt word_le_nat_alt)
  then have "unat b \<noteq> 34" "unat b \<noteq> 39" "unat b \<noteq> 92"
    by auto
  then have "char_of (unat b) \<noteq> q" "b \<noteq> 0x5C"
    using q by (auto simp: char_of_unat_eq)
  with np ex show ?thesis
    by (simp add: bytes_repr_escape_def)
qed

lemma decode_quoted_hex:
  assumes q: "q = CHR 0x22 \<or> q = CHR 0x27"
    and np: "b < 0x20 \<or> 0x7F \<le> b"
    and ex: "b \<noteq> 0x00" "b \<noteq> 0x09" "b \<noteq> 0x0A" "b \<noteq> 0x0D"
  shows "decode_quoted q (xs @ [b] @ ys) =
      decode_quoted q xs
      @ [CHR 0x5C, CHR ''x'', hexdigits ! (unat b div 16), hexdigits ! (unat b mod 16)]
      @ decode_quoted q ys"
proof (rule decode_quoted_inert)
  let ?h = "hexdigits ! (unat b div 16)" and ?l = "hexdigits ! (unat b mod 16)"
  have n: "unat b div 16 < 16" "unat b mod 16 < 16"
    using unat_byte_less [of b] by (simp_all add: div_less_iff_less_mult)
  note i = hexdigit_inert [OF n(1)] hexdigit_inert [OF n(2)]
  show "bytes_repr_body q (replace [0x00] [] [b]) = [CHR 0x5C, CHR ''x'', ?h, ?l]"
    using ex(1) escape_hex [OF q np ex(2-4)] by (simp add: bytes_repr_body_def)
  show "[CHR 0x5C, CHR ''x'', ?h, ?l] \<noteq> []" by simp
  show "hd [CHR 0x5C, CHR ''x'', ?h, ?l] \<noteq> CHR ''r''" by simp
  show "hd [CHR 0x5C, CHR ''x'', ?h, ?l] \<noteq> CHR ''n''" by simp
  show "last [CHR 0x5C, CHR ''x'', ?h, ?l] \<noteq> CHR 0x5C" using i by simp
  show "replace [CHR 0x0D] [] [CHR 0x5C, CHR ''x'', ?h, ?l] = [CHR 0x5C, CHR ''x'', ?h, ?l]"
    using i by simp
  show "replace [CHR 0x5C, CHR ''r''] [] [CHR 0x5C, CHR ''x'', ?h, ?l]
      = [CHR 0x5C, CHR ''x'', ?h, ?l]"
    using i by simp
  show "replace [CHR 0x5C, CHR ''n''] '' '' [CHR 0x5C, CHR ''x'', ?h, ?l]
      = [CHR 0x5C, CHR ''x'', ?h, ?l]"
    using i by simp
qed

lemma escape_single_quote:
  "bytes_repr_escape (CHR 0x22) 0x27 = [CHR 0x27]"
  "bytes_repr_escape (CHR 0x27) 0x27 = [CHR 0x5C, CHR 0x27]"
  by code_simp+

lemma decode_quoted_single_quote:
  "decode_quoted (CHR 0x22) (xs @ [0x27] @ ys) =
     decode_quoted (CHR 0x22) xs @ [CHR 0x27] @ decode_quoted (CHR 0x22) ys"
  "decode_quoted (CHR 0x27) (xs @ [0x27] @ ys) =
     decode_quoted (CHR 0x27) xs @ [CHR 0x5C, CHR 0x27] @ decode_quoted (CHR 0x27) ys"
  by (rule decode_quoted_inert; simp add: bytes_repr_body_def escape_single_quote)+

text \<open>
  Claim C4. Whatever the bytes, the decoded text holds no null character, no
  carriage return and no line feed, so it fits in one log line; and a line ending
  of the input, a line feed alone or a carriage return followed by a line feed,
  comes out as one space between the decoded text before it and the decoded text
  after it.
\<close>

theorem bytes_to_string_single_line:
  "(\<exists>s. bytes_to_string (Some bs) = Inr s
        \<and> CHR 0x00 \<notin> set s \<and> CHR 0x0D \<notin> set s \<and> CHR 0x0A \<notin> set s)
   \<and> bytes_to_string (Some (xs @ [0x0A] @ ys)) =
       Inr (decode_quoted (bytes_repr_quote (xs @ [0x0A] @ ys)) xs @ '' ''
            @ decode_quoted (bytes_repr_quote (xs @ [0x0A] @ ys)) ys)
   \<and> bytes_to_string (Some (xs @ [0x0D, 0x0A] @ ys)) =
       Inr (decode_quoted (bytes_repr_quote (xs @ [0x0D, 0x0A] @ ys)) xs @ '' ''
            @ decode_quoted (bytes_repr_quote (xs @ [0x0D, 0x0A] @ ys)) ys)"
proof (intro conjI)
  have "\<And>c. c \<in> set (decode_quoted (bytes_repr_quote bs) bs) \<Longrightarrow> printable_ascii c"
    using printable_quote by (rule printable_decode_quoted)
  then have "CHR 0x00 \<notin> set (decode_quoted (bytes_repr_quote bs) bs)"
    "CHR 0x0D \<notin> set (decode_quoted (bytes_repr_quote bs) bs)"
    "CHR 0x0A \<notin> set (decode_quoted (bytes_repr_quote bs) bs)"
    using not_printable_ctrl by blast+
  then show "\<exists>s. bytes_to_string (Some bs) = Inr s
        \<and> CHR 0x00 \<notin> set s \<and> CHR 0x0D \<notin> set s \<and> CHR 0x0A \<notin> set s"
    by (simp add: bytes_to_string_eq)
next
  show "bytes_to_string (Some (xs @ [0x0A] @ ys)) =
       Inr (decode_quoted (bytes_repr_quote (xs @ [0x0A] @ ys)) xs @ '' ''
            @ decode_quoted (bytes_repr_quote (xs @ [0x0A] @ ys)) ys)"
    unfolding bytes_to_string_eq
    using decode_quoted_lf [OF bytes_repr_quote_cases] by simp
next
  show "bytes_to_string (Some (xs @ [0x0D, 0x0A] @ ys)) =
       Inr (decode_quoted (bytes_repr_quote (xs @ [0x0D, 0x0A] @ ys)) xs @ '' ''
            @ decode_quoted (bytes_repr_quote (xs @ [0x0D, 0x0A] @ ys)) ys)"
    unfolding bytes_to_string_eq
    using decode_quoted_crlf [OF bytes_repr_quote_cases] by simp
qed

theorem bytes_to_string_single_line_witness:
  "bytes_to_string (Some [0x61, 0x0D, 0x0A, 0x62, 0x0A, 0x00, 0x63]) = Inr ''a b c''
   \<and> bytes_to_string (Some [0x61, 0x0A, 0x0A, 0x62]) = Inr ''a  b''"
proof -
  have q: "bytes_repr_quote ([0x61] @ [0x0D, 0x0A] @ [0x62, 0x0A, 0x00, 0x63]) = CHR 0x27"
    "bytes_repr_quote ([0x61] @ [0x0A] @ [0x0A, 0x62]) = CHR 0x27"
    by (simp_all add: bytes_repr_quote_def)
  have d: "decode_quoted (CHR 0x27) [0x61] = ''a''"
    "decode_quoted (CHR 0x27) [0x62, 0x0A, 0x00, 0x63] = ''b c''"
    "decode_quoted (CHR 0x27) [0x0A, 0x62] = '' b''"
    by code_simp+
  from bytes_to_string_single_line [where xs = "[0x61]" and ys = "[0x62, 0x0A, 0x00, 0x63]"]
  have 1: "bytes_to_string (Some ([0x61] @ [0x0D, 0x0A] @ [0x62, 0x0A, 0x00, 0x63]))
      = Inr ''a b c''"
    unfolding q d by simp
  from bytes_to_string_single_line [where xs = "[0x61]" and ys = "[0x0A, 0x62]"]
  have 2: "bytes_to_string (Some ([0x61] @ [0x0A] @ [0x0A, 0x62])) = Inr ''a  b''"
    unfolding q d by simp
  from 1 2 show ?thesis by simp
qed

text \<open>
  Claim C9, as stated, fails for the single quote: alone, or with no double quote
  around, it comes out as it is, without a backslash.
\<close>

theorem single_quote_unescaped:
  "bytes_to_string (Some [0x27]) = Inr [CHR 0x27]
   \<and> bytes_to_string (Some [0x69, 0x74, 0x27, 0x73]) = Inr [CHR ''i'', CHR ''t'', CHR 0x27, CHR ''s'']"
  by code_simp

lemma decode_quoted_cr_removed:
  "decode_quoted q bs = replace [CHR 0x5C, CHR ''n''] '' '' (decode_cr_removed q bs)"
  by (simp add: decode_quoted_def decode_cr_removed_def)

lemma decode_cr_removed_cr:
  assumes "q = CHR 0x22 \<or> q = CHR 0x27"
  shows "decode_cr_removed q (xs @ [0x0D] @ ys) = decode_cr_removed q xs @ decode_cr_removed q ys"
proof -
  let ?A = "bytes_repr_body q (replace [0x00] [] xs)"
  let ?B = "bytes_repr_body q (replace [0x00] [] ys)"
  let ?R0 = "replace [CHR 0x0D] []"
  let ?R1 = "replace [CHR 0x5C, CHR ''r''] []"
  have e: "bytes_repr_escape q 0x0D = [CHR 0x5C, CHR ''r'']"
    using assms by (auto simp: bytes_repr_escape_def char_of_eq_iff)
  have s: "replace [0x00 :: byte] [] [0x0D] = [0x0D]"
    by simp
  have body: "bytes_repr_body q (replace [0x00] [] (xs @ [0x0D] @ ys))
      = ?A @ [CHR 0x5C, CHR ''r''] @ ?B"
    by (simp only: strip_append s body_append) (simp add: bytes_repr_body_def e)
  have r0: "?R0 (?A @ [CHR 0x5C, CHR ''r''] @ ?B) = ?R0 ?A @ [CHR 0x5C, CHR ''r''] @ ?R0 ?B"
    by (simp add: replace1_append)
  have r1: "?R1 (?R0 ?A @ [CHR 0x5C, CHR ''r''] @ ?R0 ?B) = ?R1 (?R0 ?A) @ ?R1 (?R0 ?B)"
  proof -
    have "?R1 (?R0 ?A @ ([CHR 0x5C, CHR ''r''] @ ?R0 ?B))
        = ?R1 (?R0 ?A) @ ?R1 ([CHR 0x5C, CHR ''r''] @ ?R0 ?B)"
      by (rule replace2_append) simp
    moreover have "?R1 ([CHR 0x5C, CHR ''r''] @ ?R0 ?B) = ?R1 (?R0 ?B)"
      by simp
    ultimately show ?thesis by simp
  qed
  show ?thesis
    unfolding decode_cr_removed_def body r0 r1 ..
qed

lemma escape_tab:
  assumes "q = CHR 0x22 \<or> q = CHR 0x27"
  shows "bytes_repr_escape q 0x09 = [CHR 0x5C, CHR ''t'']"
  using assms by (auto simp: bytes_repr_escape_def char_of_eq_iff)

lemma decode_quoted_tab:
  assumes "q = CHR 0x22 \<or> q = CHR 0x27"
  shows "decode_quoted q (xs @ [0x09] @ ys) =
      decode_quoted q xs @ [CHR 0x5C, CHR ''t''] @ decode_quoted q ys"
  by (rule decode_quoted_inert) (simp_all add: bytes_repr_body_def escape_tab [OF assms])

lemma bytes_to_string_nul:
  "bytes_to_string (Some (xs @ [0x00] @ ys)) = bytes_to_string (Some (xs @ ys))"
  by (simp add: bytes_to_string_def replace1_append)

text \<open>
  Claim C9, amended. Whatever the bytes, the decoded text consists of printable
  ASCII characters only. A NUL is dropped: the input decodes as it does without
  it. A TAB comes out as backslash and t, an LF as one space. A CR is dropped
  before the line feeds are replaced. Any other byte outside printable ASCII
  comes out as the four characters backslash, x and its two hexadecimal digits.
  A single quote comes out as backslash and quote when the input also holds a
  double quote, and as the quote alone otherwise.
\<close>

theorem bytes_to_string_printable:
  "(\<exists>s. bytes_to_string (Some bs) = Inr s \<and> (\<forall>c \<in> set s. printable_ascii c))
   \<and> bytes_to_string (Some (xs @ [0x00] @ ys)) = bytes_to_string (Some (xs @ ys))
   \<and> bytes_to_string (Some (xs @ [0x09] @ ys)) =
       Inr (decode_quoted (bytes_repr_quote (xs @ [0x09] @ ys)) xs @ [CHR 0x5C, CHR ''t'']
            @ decode_quoted (bytes_repr_quote (xs @ [0x09] @ ys)) ys)
   \<and> bytes_to_string (Some (xs @ [0x0A] @ ys)) =
       Inr (decode_quoted (bytes_repr_quote (xs @ [0x0A] @ ys)) xs @ '' ''
            @ decode_quoted (bytes_repr_quote (xs @ [0x0A] @ ys)) ys)
   \<and> bytes_to_string (Some (xs @ [0x0D] @ ys)) =
       Inr (replace [CHR 0x5C, CHR ''n''] '' ''
              (decode_cr_removed (bytes_repr_quote (xs @ [0x0D] @ ys)) xs
               @ decode_cr_removed (bytes_repr_quote (xs @ [0x0D] @ ys)) ys))
   \<and> ((b < 0x20 \<or> 0x7F \<le> b) \<and> b \<noteq> 0x00 \<and> b \<noteq> 0x09 \<and> b \<noteq> 0x0A \<and> b \<noteq> 0x0D \<longrightarrow>
        bytes_to_string (Some (xs @ [b] @ ys)) =
          Inr (decode_quoted (bytes_repr_quote (xs @ [b] @ ys)) xs
               @ [CHR 0x5C, CHR ''x'', hexdigits ! (unat b div 16), hexdigits ! (unat b mod 16)]
               @ decode_quoted (bytes_repr_quote (xs @ [b] @ ys)) ys))
   \<and> bytes_to_string (Some (xs @ [0x27] @ ys)) =
       Inr (decode_quoted (bytes_repr_quote (xs @ [0x27] @ ys)) xs
            @ (if 0x22 \<in> set (xs @ ys) then [CHR 0x5C, CHR 0x27] else [CHR 0x27])
            @ decode_quoted (bytes_repr_quote (xs @ [0x27] @ ys)) ys)"
proof (intro conjI impI)
  have "\<And>c. c \<in> set (decode_quoted (bytes_repr_quote bs) bs) \<Longrightarrow> printable_ascii c"
    using printable_quote by (rule printable_decode_quoted)
  then show "\<exists>s. bytes_to_string (Some bs) = Inr s \<and> (\<forall>c \<in> set s. printable_ascii c)"
    by (simp add: bytes_to_string_eq)
next
  show "bytes_to_string (Some (xs @ [0x00] @ ys)) = bytes_to_string (Some (xs @ ys))"
    by (rule bytes_to_string_nul)
next
  show "bytes_to_string (Some (xs @ [0x09] @ ys)) =
       Inr (decode_quoted (bytes_repr_quote (xs @ [0x09] @ ys)) xs @ [CHR 0x5C, CHR ''t'']
            @ decode_quoted (bytes_repr_quote (xs @ [0x09] @ ys)) ys)"
    unfolding bytes_to_string_eq
    using decode_quoted_tab [OF bytes_repr_quote_cases] by simp
next
  show "bytes_to_string (Some (xs @ [0x0A] @ ys)) =
       Inr (decode_quoted (bytes_repr_quote (xs @ [0x0A] @ ys)) xs @ '' ''
            @ decode_quoted (bytes_repr_quote (xs @ [0x0A] @ ys)) ys)"
    unfolding bytes_to_string_eq
    using decode_quoted_lf [OF bytes_repr_quote_cases] by simp
next
  show "bytes_to_string (Some (xs @ [0x0D] @ ys)) =
       Inr (replace [CHR 0x5C, CHR ''n''] '' ''
              (decode_cr_removed (bytes_repr_quote (xs @ [0x0D] @ ys)) xs
               @ decode_cr_removed (bytes_repr_quote (xs @ [0x0D] @ ys)) ys))"
    unfolding bytes_to_string_eq decode_quoted_cr_removed
    using decode_cr_removed_cr [OF bytes_repr_quote_cases] by simp
next
  assume "(b < 0x20 \<or> 0x7F \<le> b) \<and> b \<noteq> 0x00 \<and> b \<noteq> 0x09 \<and> b \<noteq> 0x0A \<and> b \<noteq> 0x0D"
  then have np: "b < 0x20 \<or> 0x7F \<le> b" and ex: "b \<noteq> 0x00" "b \<noteq> 0x09" "b \<noteq> 0x0A" "b \<noteq> 0x0D"
    by simp_all
  show "bytes_to_string (Some (xs @ [b] @ ys)) =
          Inr (decode_quoted (bytes_repr_quote (xs @ [b] @ ys)) xs
               @ [CHR 0x5C, CHR ''x'', hexdigits ! (unat b div 16), hexdigits ! (unat b mod 16)]
               @ decode_quoted (bytes_repr_quote (xs @ [b] @ ys)) ys)"
    unfolding bytes_to_string_eq
    using decode_quoted_hex [OF bytes_repr_quote_cases np ex] by simp
next
  have q: "bytes_repr_quote (xs @ [0x27] @ ys)
      = (if 0x22 \<in> set (xs @ ys) then CHR 0x27 else CHR 0x22)"
    by (simp add: bytes_repr_quote_def)
  show "bytes_to_string (Some (xs @ [0x27] @ ys)) =
       Inr (decode_quoted (bytes_repr_quote (xs @ [0x27] @ ys)) xs
            @ (if 0x22 \<in> set (xs @ ys) then [CHR 0x5C, CHR 0x27] else [CHR 0x27])
            @ decode_quoted (bytes_repr_quote (xs @ [0x27] @ ys)) ys)"
    unfolding bytes_to_string_eq q
    by (simp only: decode_quoted_single_quote split: if_split) simp
qed

theorem bytes_to_string_printable_witness:
  "bytes_to_string (Some [0x9C]) = Inr [CHR 0x5C, CHR ''x'', CHR ''9'', CHR ''c'']
   \<and> list_all printable_ascii [CHR 0x5C, CHR ''x'', CHR ''9'', CHR ''c'']
   \<and> bytes_to_string (Some [0x22, 0x27]) = Inr [CHR 0x22, CHR 0x5C, CHR 0x27]
   \<and> bytes_to_string (Some [0x27, 0x73]) = Inr [CHR 0x27, CHR ''s'']
   \<and> bytes_to_string (Some [0x61, 0x00, 0x62]) = Inr ''ab''
   \<and> bytes_to_string (Some [0x61, 0x09, 0x62]) = Inr [CHR ''a'', CHR 0x5C, CHR ''t'', CHR ''b'']
   \<and> bytes_to_string (Some [0x61, 0x0A, 0x62]) = Inr ''a b''
   \<and> bytes_to_string (Some [0x61, 0x0D, 0x62]) = Inr ''ab''"
proof -
  have h: "((0x9C :: byte) < 0x20 \<or> 0x7F \<le> (0x9C :: byte)) \<and> (0x9C :: byte) \<noteq> 0x00
      \<and> (0x9C :: byte) \<noteq> 0x09 \<and> (0x9C :: byte) \<noteq> 0x0A \<and> (0x9C :: byte) \<noteq> 0x0D"
    by simp
  have d: "decode_quoted (bytes_repr_quote ([] @ [0x9C] @ [])) [] = []"
    "decode_quoted (bytes_repr_quote ([0x22] @ [0x27] @ [])) [0x22] = [CHR 0x22]"
    "decode_quoted (bytes_repr_quote ([0x22] @ [0x27] @ [])) [] = []"
    "decode_quoted (bytes_repr_quote ([] @ [0x27] @ [0x73])) [] = []"
    "decode_quoted (bytes_repr_quote ([] @ [0x27] @ [0x73])) [0x73] = ''s''"
    "decode_quoted (bytes_repr_quote ([0x61] @ [0x09] @ [0x62])) [0x61] = ''a''"
    "decode_quoted (bytes_repr_quote ([0x61] @ [0x09] @ [0x62])) [0x62] = ''b''"
    "decode_quoted (bytes_repr_quote ([0x61] @ [0x0A] @ [0x62])) [0x61] = ''a''"
    "decode_quoted (bytes_repr_quote ([0x61] @ [0x0A] @ [0x62])) [0x62] = ''b''"
    by code_simp+
  have r: "replace [CHR 0x5C, CHR ''n''] '' ''
      (decode_cr_removed (bytes_repr_quote ([0x61] @ [0x0D] @ [0x62])) [0x61]
       @ decode_cr_removed (bytes_repr_quote ([0x61] @ [0x0D] @ [0x62])) [0x62]) = ''ab''"
    by code_simp
  have z: "bytes_to_string (Some ([0x61] @ [0x62])) = Inr ''ab''"
    by code_simp
  have x: "hexdigits ! (unat (0x9C :: byte) div 16) = CHR ''9''"
    "hexdigits ! (unat (0x9C :: byte) mod 16) = CHR ''c''"
    by code_simp+
  note T = bytes_to_string_printable
  from T [where b = "0x9C" and xs = "[]" and ys = "[]"] h
  have 1: "bytes_to_string (Some ([] @ [0x9C] @ [])) = Inr [CHR 0x5C, CHR ''x'', CHR ''9'', CHR ''c'']"
    unfolding d x by simp
  from T [where bs = "[0x9C]"] 1
  have 2: "list_all printable_ascii [CHR 0x5C, CHR ''x'', CHR ''9'', CHR ''c'']"
    by (auto simp: list_all_iff)
  from T [where xs = "[0x22]" and ys = "[]"]
  have 3: "bytes_to_string (Some ([0x22] @ [0x27] @ [])) = Inr [CHR 0x22, CHR 0x5C, CHR 0x27]"
    unfolding d by simp
  from T [where xs = "[]" and ys = "[0x73]"]
  have 4: "bytes_to_string (Some ([] @ [0x27] @ [0x73])) = Inr [CHR 0x27, CHR ''s'']"
    unfolding d by simp
  from T [where xs = "[0x61]" and ys = "[0x62]"]
  have 5: "bytes_to_string (Some ([0x61] @ [0x00] @ [0x62])) = Inr ''ab''"
    and 6: "bytes_to_string (Some ([0x61] @ [0x09] @ [0x62]))
      = Inr [CHR ''a'', CHR 0x5C, CHR ''t'', CHR ''b'']"
    and 7: "bytes_to_string (Some ([0x61] @ [0x0A] @ [0x62])) = Inr ''a b''"
    and 8: "bytes_to_string (Some ([0x61] @ [0x0D] @ [0x62])) = Inr ''ab''"
    unfolding d r z by simp_all
  from 1 2 3 4 5 6 7 8 show ?thesis by simp
qed

end
